theory Spec2Isabelle
  imports Complex_Main "HOL-Library.AList"
begin

section \<open>Data model of the ADUP router\<close>

text \<open>
  Shallow embedding of \<^verbatim>\<open>src/adup/router.py\<close> (class \<^verbatim>\<open>Router\<close>), of the logical
  packets of \<^verbatim>\<open>src/adup/packets.py\<close> and of the link of \<^verbatim>\<open>src/adup/simulation.py\<close>.

  \<^item> Python numbers (the floats of costs, metrics and virtual time) are exact rationals
    \<^typ>\<open>rat\<close>: rounding of binary floating point is not modelled.
  \<^item> A Python dict that the code iterates over is an association list in insertion
    order (\<^const>\<open>map_of\<close> reads a key, \<^const>\<open>AList.update\<close> assigns in place or
    appends, \<^const>\<open>AList.delete\<close> is \<^verbatim>\<open>del\<close>); a dict has each key once. A dict
    that is only read by key is a map.
  \<^item> Each handler runs without suspension (scheduling is cooperative), so it is a
    function from the router state to the new state. The virtual time \<^verbatim>\<open>env.now\<close> is a
    parameter. A process spawned with \<^verbatim>\<open>env.process(self._send_update_proc(dest))\<close> is
    recorded in \<open>scheduled_updates\<close>; the packets that \<^verbatim>\<open>send_update\<close> puts on links are
    the list it returns.
  \<^item> \<^verbatim>\<open>print\<close> calls and the packet log of HELLOs are left out.
\<close>

type_synonym 'v str_dict = "(string \<times> 'v) list"

record link =
  router1 :: string
  router2 :: string

record ADUP_Route_Entry =
  prefix_len :: nat
  dest_network :: string
  total_bandwidth :: nat
  total_delay :: int
  total_jitter :: nat
  total_packet_loss :: nat
  total_congestion :: nat

record ADUP_Hello =
  hello_delay :: rat
  hello_jitter :: rat
  hello_packet_loss :: rat
  hello_congestion :: rat
  hello_link_stability :: rat

datatype packet = Hello ADUP_Hello | Update "ADUP_Route_Entry list" | Other_Packet

type_synonym metrics = "string \<Rightarrow> rat option"

record neighbor_info =
  last_seen :: rat
  metrics :: metrics

record weights =
  weight_delay :: rat
  weight_jitter :: rat
  weight_packet_loss :: rat
  weight_congestion :: rat

text \<open>A FIB entry \<^verbatim>\<open>{'next_hop': .., 'metrics': {'total_cost': .., ..}}\<close>. Every entry the
  code installs has the key \<^verbatim>\<open>total_cost\<close>; the entries of directly connected networks
  have \<^verbatim>\<open>total_delay\<close> and none of the other keys.\<close>

record fib_entry =
  next_hop :: string
  total_cost :: rat
  fib_total_delay :: "rat option"
  stability :: "rat option"
  congestion :: "rat option"
  packet_loss :: "rat option"
  selection_reason :: "string option"

record candidate =
  neighbor :: string
  cand_total_cost :: rat
  combined_score :: rat
  cand_stability :: rat
  cand_congestion :: rat
  cand_packet_loss :: rat
  exploration_bonus :: rat
  cand_selection_reason :: string

record route_change =
  change_time :: rat
  change_router :: string
  destination :: string
  old_route :: string
  new_route :: string
  path_info :: candidate
  change_type :: string

record path_analysis =
  analysis_time :: rat
  analysis_router :: string
  analysis_destination :: string
  candidates :: "candidate list"
  selection_criteria :: string
  total_candidates :: nat

record router =
  name :: string
  interfaces :: "link option str_dict"
  networks :: "string list"
  neighbor_table :: "neighbor_info str_dict"
  fib :: "fib_entry str_dict"
  topology_table :: "rat str_dict str_dict"
  metric_weights :: weights
  route_changes :: "route_change list"
  last_route_change_time :: rat
  convergence_start_time :: "rat option"
  path_usage :: "string \<Rightarrow> nat option"
  path_analysis_log :: "path_analysis list"
  cost_history :: "string \<Rightarrow> rat list option"
  loop_detection :: "string \<Rightarrow> (rat \<times> rat) list option"
  scheduled_updates :: "string list"

definition default_metric_weights :: weights where
  "default_metric_weights =
     \<lparr>weight_delay = 0.4, weight_jitter = 0.2, weight_packet_loss = 0.25,
      weight_congestion = 0.15\<rparr>"

text \<open>\<^verbatim>\<open>Router.__init__\<close>: empty tables, the default weights.\<close>

definition Router_init :: "string \<Rightarrow> link option str_dict \<Rightarrow> string list \<Rightarrow> router" where
  "Router_init nm ifaces nets =
     \<lparr>name = nm, interfaces = ifaces, networks = nets, neighbor_table = [], fib = [],
      topology_table = [], metric_weights = default_metric_weights, route_changes = [],
      last_route_change_time = 0, convergence_start_time = None, path_usage = Map.empty,
      path_analysis_log = [], cost_history = Map.empty, loop_detection = Map.empty,
      scheduled_updates = []\<rparr>"

section \<open>Python helpers\<close>

text \<open>\<^verbatim>\<open>d.get(k, 0)\<close> on a dict of numbers.\<close>

definition get0 :: "metrics \<Rightarrow> string \<Rightarrow> rat" where
  "get0 m k = (case m k of None \<Rightarrow> 0 | Some v \<Rightarrow> v)"

text \<open>\<^verbatim>\<open>int(x)\<close> truncates toward zero.\<close>

definition py_int :: "rat \<Rightarrow> int" where
  "py_int q = (if 0 \<le> q then \<lfloor>q\<rfloor> else \<lceil>q\<rceil>)"

text \<open>\<^verbatim>\<open>xs[-n:]\<close>: the last \<open>n\<close> elements (all of them when there are fewer).\<close>

definition last_n :: "nat \<Rightarrow> 'a list \<Rightarrow> 'a list" where
  "last_n n xs = drop (length xs - n) xs"

text \<open>\<^verbatim>\<open>max(xs)\<close> and \<^verbatim>\<open>min(xs)\<close> of a list; the code calls them on five elements.\<close>

fun list_max :: "rat list \<Rightarrow> rat" where
  "list_max [] = 0"
| "list_max (x # xs) = fold max xs x"

fun list_min :: "rat list \<Rightarrow> rat" where
  "list_min [] = 0"
| "list_min (x # xs) = fold min xs x"

section \<open>Composite cost\<close>

text \<open>\<^verbatim>\<open>calculate_composite_cost\<close>. The four weights are fixed keys of
  \<^verbatim>\<open>self.metric_weights\<close>, so the \<^verbatim>\<open>except\<close> branch is not reached.\<close>

definition calculate_composite_cost :: "router \<Rightarrow> metrics \<Rightarrow> rat" where
  "calculate_composite_cost r m =
     weight_delay (metric_weights r) * get0 m ''delay'' +
     weight_jitter (metric_weights r) * get0 m ''jitter'' +
     weight_packet_loss (metric_weights r) * get0 m ''packet_loss'' * 10 +
     weight_congestion (metric_weights r) * get0 m ''congestion''"

section \<open>Route-change log\<close>

definition classify_route_change :: "string \<Rightarrow> string \<Rightarrow> candidate \<Rightarrow> string" where
  "classify_route_change old new pinfo =
     (if old = ''None'' then ''New route discovered''
      else if new = ''None'' then ''Route lost''
      else if old \<noteq> new then
        (if cand_total_cost pinfo < 50 then ''Better path found''
         else ''Path switched due to failure'')
      else ''Route updated'')"

definition log_route_change :: "router \<Rightarrow> rat \<Rightarrow> string \<Rightarrow> string \<Rightarrow> string \<Rightarrow> candidate \<Rightarrow> router" where
  "log_route_change r now dest old new pinfo =
     (let change_entry =
            \<lparr>change_time = now, change_router = name r, destination = dest, old_route = old,
             new_route = new, path_info = pinfo,
             change_type = classify_route_change old new pinfo\<rparr>;
          changes = route_changes r @ [change_entry]
      in r\<lparr>route_changes := (if length changes > 50 then last_n 50 changes else changes)\<rparr>)"

section \<open>Advertisement\<close>

text \<open>\<^verbatim>\<open>trigger_update(dest)\<close>. \<^verbatim>\<open>if dest:\<close> is false for \<^verbatim>\<open>None\<close> and for the empty
  string; then every directly connected network gets its entry with next hop
  \<^verbatim>\<open>'self'\<close> and cost 0, and an update is scheduled for it.\<close>

definition self_entry :: fib_entry where
  "self_entry =
     \<lparr>next_hop = ''self'', total_cost = 0, fib_total_delay = Some 0, stability = None,
      congestion = None, packet_loss = None, selection_reason = None\<rparr>"

fun install_networks :: "string list \<Rightarrow> router \<Rightarrow> router" where
  "install_networks [] r = r"
| "install_networks (net # nets) r =
     install_networks nets
       (r\<lparr>fib := AList.update net self_entry (fib r),
          scheduled_updates := scheduled_updates r @ [net]\<rparr>)"

definition trigger_update :: "router \<Rightarrow> string option \<Rightarrow> router" where
  "trigger_update r dest =
     (case dest of
        Some d \<Rightarrow>
          (if d \<noteq> [] then r\<lparr>scheduled_updates := scheduled_updates r @ [d]\<rparr>
           else install_networks (networks r) r)
      | None \<Rightarrow> install_networks (networks r) r)"

text \<open>\<^verbatim>\<open>_send_update_on_all_interfaces\<close>: one \<^verbatim>\<open>link.put((self, update_pkt))\<close> for every
  interface whose \<^verbatim>\<open>'link'\<close> is set, in the order of the interfaces. An emission is the
  interface name, the link and the packet.\<close>

fun send_update_on_all_interfaces ::
  "link option str_dict \<Rightarrow> packet \<Rightarrow> (string \<times> link \<times> packet) list" where
  "send_update_on_all_interfaces [] pkt = []"
| "send_update_on_all_interfaces ((iface_name, None) # rest) pkt =
     send_update_on_all_interfaces rest pkt"
| "send_update_on_all_interfaces ((iface_name, Some l) # rest) pkt =
     (iface_name, l, pkt) # send_update_on_all_interfaces rest pkt"

definition route_entry_for :: "string \<Rightarrow> rat \<Rightarrow> ADUP_Route_Entry" where
  "route_entry_for dest cost =
     \<lparr>prefix_len = 24, dest_network = dest, total_bandwidth = 100000,
      total_delay = py_int cost, total_jitter = 0, total_packet_loss = 0,
      total_congestion = 0\<rparr>"

definition send_update :: "router \<Rightarrow> string \<Rightarrow> (string \<times> link \<times> packet) list" where
  "send_update r dest =
     (case map_of (fib r) dest of
        None \<Rightarrow> []
      | Some best_route_info \<Rightarrow>
          (if total_cost best_route_info > 70 then []
           else send_update_on_all_interfaces (interfaces r)
                  (Update [route_entry_for dest (total_cost best_route_info)])))"

text \<open>\<^verbatim>\<open>Link.run\<close>: a packet put by \<open>sender\<close> is delivered to the other endpoint.\<close>

definition link_receiver :: "link \<Rightarrow> string \<Rightarrow> string" where
  "link_receiver l sender = (if sender = router1 l then router2 l else router1 l)"

section \<open>Neighbors\<close>

definition dead_neighbors :: "router \<Rightarrow> rat \<Rightarrow> string list" where
  "dead_neighbors r now =
     map fst (filter (\<lambda>(nm, data). now - last_seen data > 15) (neighbor_table r))"

definition prune_neighbors :: "router \<Rightarrow> rat \<Rightarrow> router" where
  "prune_neighbors r now =
     r\<lparr>neighbor_table := fold AList.delete (dead_neighbors r now) (neighbor_table r)\<rparr>"

definition hello_metrics :: "ADUP_Hello \<Rightarrow> metrics" where
  "hello_metrics h =
     [''delay'' \<mapsto> hello_delay h, ''jitter'' \<mapsto> hello_jitter h,
      ''packet_loss'' \<mapsto> hello_packet_loss h, ''congestion'' \<mapsto> hello_congestion h,
      ''link_stability'' \<mapsto> hello_link_stability h]"

definition handle_hello :: "router \<Rightarrow> rat \<Rightarrow> string \<Rightarrow> ADUP_Hello \<Rightarrow> router" where
  "handle_hello r now neighbor_name h =
     prune_neighbors
       (r\<lparr>neighbor_table :=
            AList.update neighbor_name \<lparr>last_seen = now, metrics = hello_metrics h\<rparr>
              (neighbor_table r)\<rparr>) now"

section \<open>Cost stabilization and loop detection\<close>

text \<open>The exponential smoothing loop of \<^verbatim>\<open>stabilize_cost\<close>: it starts from
  \<^verbatim>\<open>history[-1]\<close> and walks \<^verbatim>\<open>i = len(history) - 2, .., 0\<close> with
  \<^verbatim>\<open>smoothed = alpha * history[i] + (1 - alpha) * smoothed\<close>.\<close>

definition smooth_history :: "rat \<Rightarrow> rat list \<Rightarrow> rat" where
  "smooth_history alpha history =
     foldr (\<lambda>h smoothed. alpha * h + (1 - alpha) * smoothed) (butlast history) (last history)"

text \<open>The value \<^verbatim>\<open>stabilize_cost\<close> returns for the history after the new cost is
  appended and the history is cut to five entries.\<close>

definition stabilized_value :: "rat list \<Rightarrow> rat \<Rightarrow> rat" where
  "stabilized_value history new_cost =
     (if length history \<ge> 3 then
        (let smoothed_cost = smooth_history 0.5 history;
             smoothed_cost =
               (if length history > 1 then
                  (let prev_cost = history ! (length history - 2);
                       max_increase = prev_cost * 1.2
                   in if smoothed_cost > max_increase then max_increase else smoothed_cost)
                else smoothed_cost)
         in min smoothed_cost 80)
      else min new_cost 60)"

definition cost_key :: "string \<Rightarrow> string \<Rightarrow> string" where
  "cost_key dest nb = dest @ ''-'' @ nb"

definition push_cost :: "rat list \<Rightarrow> rat \<Rightarrow> rat list" where
  "push_cost old new_cost =
     (let history = old @ [new_cost] in if length history > 5 then tl history else history)"

definition stabilize_cost :: "router \<Rightarrow> string \<Rightarrow> string \<Rightarrow> rat \<Rightarrow> router \<times> rat" where
  "stabilize_cost r dest nb new_cost =
     (let history =
            push_cost (case cost_history r (cost_key dest nb) of None \<Rightarrow> [] | Some h \<Rightarrow> h)
              new_cost
      in (r\<lparr>cost_history := (cost_history r)(cost_key dest nb \<mapsto> history)\<rparr>,
          stabilized_value history new_cost))"

text \<open>The number of \<^verbatim>\<open>i\<close> in \<^verbatim>\<open>range(1, len(history))\<close> with
  \<^verbatim>\<open>history[i][1] > history[i-1][1]\<close>.\<close>

fun count_increases :: "rat list \<Rightarrow> nat" where
  "count_increases (a # b # rest) = (if b > a then 1 else 0) + count_increases (b # rest)"
| "count_increases _ = 0"

text \<open>The verdict of \<^verbatim>\<open>detect_cost_loop\<close> on the history after the new pair is
  appended and the history is cut to ten entries.\<close>

definition loop_verdict :: "(rat \<times> rat) list \<Rightarrow> bool" where
  "loop_verdict history =
     (if length history \<ge> 5 \<and>
         list_max (map snd (last_n 5 history)) - list_min (map snd (last_n 5 history)) > 30
      then True
      else if length history \<ge> 4 \<and> count_increases (map snd history) \<ge> 3 then True
      else False)"

definition push_sample :: "(rat \<times> rat) list \<Rightarrow> rat \<times> rat \<Rightarrow> (rat \<times> rat) list" where
  "push_sample old sample =
     (let history = old @ [sample] in if length history > 10 then tl history else history)"

definition detect_cost_loop :: "router \<Rightarrow> rat \<Rightarrow> string \<Rightarrow> string \<Rightarrow> rat \<Rightarrow> router \<times> bool" where
  "detect_cost_loop r now dest nb new_cost =
     (let history =
            push_sample (case loop_detection r (cost_key dest nb) of None \<Rightarrow> [] | Some h \<Rightarrow> h)
              (now, new_cost)
      in (r\<lparr>loop_detection := (loop_detection r)(cost_key dest nb \<mapsto> history)\<rparr>,
          loop_verdict history))"

section \<open>Path selection\<close>

definition calculate_link_stability :: "router \<Rightarrow> rat \<Rightarrow> string \<Rightarrow> rat" where
  "calculate_link_stability r now nb =
     (case map_of (neighbor_table r) nb of
        None \<Rightarrow> 0
      | Some info \<Rightarrow>
          (let time_since_contact = now - last_seen info
           in if time_since_contact < 20 then 100
              else if time_since_contact < 40 then 75
              else if time_since_contact < 80 then 50
              else 25))"

definition usage_key :: "string \<Rightarrow> string \<Rightarrow> string" where
  "usage_key nb dest = nb @ ''->'' @ dest"

definition calculate_exploration_bonus :: "router \<Rightarrow> string \<Rightarrow> string \<Rightarrow> rat" where
  "calculate_exploration_bonus r nb dest =
     (let usage_count = (case path_usage r (usage_key nb dest) of None \<Rightarrow> 0 | Some n \<Rightarrow> n)
      in if usage_count = 0 then 10
         else if usage_count < 3 then 5
         else if usage_count < 10 then 2
         else 0)"

definition determine_selection_reason :: "rat \<Rightarrow> rat \<Rightarrow> rat \<Rightarrow> rat \<Rightarrow> string" where
  "determine_selection_reason cost stab cong loss =
     (if cost < 50 \<and> stab > 80 then ''Optimal path (low cost, high stability)''
      else if cong < 20 then ''Low congestion path''
      else if loss < 2 then ''Low packet loss path''
      else if stab > 90 then ''High stability path''
      else ''Best available path'')"

text \<open>The body of the loop of \<^verbatim>\<open>advanced_path_selection\<close> for one item
  \<^verbatim>\<open>(neighbor, reported_cost)\<close> of \<^verbatim>\<open>topology_table[dest]\<close>: no candidate when the
  neighbor is unknown or when loop detection rejects the cost.\<close>

definition candidate_for ::
  "rat \<Rightarrow> string \<Rightarrow> string \<Rightarrow> rat \<Rightarrow> router \<Rightarrow> router \<times> candidate option" where
  "candidate_for now dest nb reported_cost r =
     (case map_of (neighbor_table r) nb of
        None \<Rightarrow> (r, None)
      | Some info \<Rightarrow>
          (let neighbor_metrics = metrics info;
               link_cost = calculate_composite_cost r neighbor_metrics;
               total = link_cost + reported_cost;
               (r1, looped) = detect_cost_loop r now dest nb total
           in if looped then (r1, None)
              else
                (let total = min total 80;
                     total = (if total > 50 then 50 + (total - 50) * 0.7 else total);
                     (r2, total) = stabilize_cost r1 dest nb total;
                     stability_score = calculate_link_stability r2 now nb;
                     congestion_level = get0 neighbor_metrics ''congestion'';
                     packet_loss_rate = get0 neighbor_metrics ''packet_loss'';
                     bonus = calculate_exploration_bonus r2 nb dest;
                     score = total * 0.6 + (100 - stability_score) * 0.15 +
                             congestion_level * 0.1 + packet_loss_rate * 10 * 0.1 +
                             bonus * 0.05
                 in (r2, Some \<lparr>neighbor = nb, cand_total_cost = total,
                                combined_score = score, cand_stability = stability_score,
                                cand_congestion = congestion_level,
                                cand_packet_loss = packet_loss_rate,
                                exploration_bonus = bonus,
                                cand_selection_reason =
                                  determine_selection_reason total stability_score
                                    congestion_level packet_loss_rate\<rparr>))))"

fun collect_candidates ::
  "rat \<Rightarrow> string \<Rightarrow> rat str_dict \<Rightarrow> router \<Rightarrow> router \<times> candidate list" where
  "collect_candidates now dest [] r = (r, [])"
| "collect_candidates now dest ((nb, reported_cost) # rest) r =
     (case candidate_for now dest nb reported_cost r of
        (r1, c) \<Rightarrow>
          (case collect_candidates now dest rest r1 of
             (r2, cs) \<Rightarrow> (r2, (case c of None \<Rightarrow> cs | Some x \<Rightarrow> x # cs))))"

definition log_path_analysis :: "router \<Rightarrow> rat \<Rightarrow> string \<Rightarrow> candidate list \<Rightarrow> router" where
  "log_path_analysis r now dest cands =
     (let analysis_entry =
            \<lparr>analysis_time = now, analysis_router = name r, analysis_destination = dest,
             candidates = cands, selection_criteria = ''multi-metric-with-exploration'',
             total_candidates = length cands\<rparr>;
          entries = path_analysis_log r @ [analysis_entry]
      in r\<lparr>path_analysis_log := (if length entries > 50 then last_n 50 entries else entries)\<rparr>)"

text \<open>\<^verbatim>\<open>advanced_path_selection\<close>: the candidates in the order of
  \<^verbatim>\<open>topology_table[dest]\<close>, sorted by \<^verbatim>\<open>combined_score\<close> with a stable sort; the first
  one is the best path. \<open>None\<close> is \<^verbatim>\<open>(None, None)\<close>.\<close>

definition advanced_path_selection :: "router \<Rightarrow> rat \<Rightarrow> string \<Rightarrow> router \<times> candidate option" where
  "advanced_path_selection r now dest =
     (case collect_candidates now dest
             (case map_of (topology_table r) dest of None \<Rightarrow> [] | Some m \<Rightarrow> m) r of
        (r1, cands) \<Rightarrow>
          (case sort_key combined_score cands of
             [] \<Rightarrow> (r1, None)
           | best # others \<Rightarrow> (log_path_analysis r1 now dest (best # others), Some best)))"

text \<open>\<^verbatim>\<open>recalculate_dual\<close>. A missing current route has next hop \<^verbatim>\<open>'None'\<close> and cost
  \<^verbatim>\<open>float('inf')\<close>, whose distance to any new cost exceeds 0.1.\<close>

definition recalculate_dual :: "router \<Rightarrow> rat \<Rightarrow> string \<Rightarrow> router" where
  "recalculate_dual r now dest =
     (case advanced_path_selection r now dest of
        (r1, None) \<Rightarrow> r1
      | (r1, Some pinfo) \<Rightarrow>
          (let best_neighbor = neighbor pinfo;
               current_route = map_of (fib r1) dest;
               current_next_hop =
                 (case current_route of None \<Rightarrow> ''None'' | Some e \<Rightarrow> next_hop e);
               new_cost = cand_total_cost pinfo;
               cost_changed =
                 (case current_route of None \<Rightarrow> True
                  | Some e \<Rightarrow> \<bar>new_cost - total_cost e\<bar> > 0.1);
               path_key = usage_key best_neighbor dest;
               r2 = r1\<lparr>path_usage := (path_usage r1)(path_key \<mapsto>
                          (case path_usage r1 path_key of None \<Rightarrow> 0 | Some n \<Rightarrow> n) + 1)\<rparr>
           in if current_next_hop \<noteq> best_neighbor \<or> cost_changed then
                (let r3 = r2\<lparr>last_route_change_time := now,
                             convergence_start_time :=
                               (case convergence_start_time r2 of None \<Rightarrow> Some now
                                | Some t \<Rightarrow> Some t)\<rparr>;
                     r4 = r3\<lparr>fib := AList.update dest
                            \<lparr>next_hop = best_neighbor, total_cost = new_cost,
                             fib_total_delay = None,
                             stability = Some (cand_stability pinfo),
                             congestion = Some (cand_congestion pinfo),
                             packet_loss = Some (cand_packet_loss pinfo),
                             selection_reason = Some (cand_selection_reason pinfo)\<rparr>
                            (fib r3)\<rparr>;
                     r5 = log_route_change r4 now dest current_next_hop best_neighbor pinfo
                 in trigger_update r5 (Some dest))
              else r2))"

section \<open>UPDATE handling\<close>

text \<open>The body of the loop of \<^verbatim>\<open>handle_update\<close> for one route entry: split horizon,
  the ceiling of 100, the cap on a rapid increase, the store into the topology table
  and the recalculation.\<close>

definition handle_route :: "rat \<Rightarrow> string \<Rightarrow> ADUP_Route_Entry \<Rightarrow> router \<Rightarrow> router" where
  "handle_route now neighbor_name route r =
     (let dest = dest_network route;
          reported_cost = (of_int (total_delay route) :: rat)
      in if (case map_of (fib r) dest of None \<Rightarrow> False
             | Some e \<Rightarrow> next_hop e = neighbor_name)
         then r
         else if reported_cost > 100 then r
         else
           (let reported_cost =
                  (case map_of (topology_table r) dest of
                     None \<Rightarrow> reported_cost
                   | Some m \<Rightarrow>
                       (case map_of m neighbor_name of
                          None \<Rightarrow> reported_cost
                        | Some old_cost \<Rightarrow>
                            (if reported_cost > old_cost * 2.0 then min (old_cost * 1.5) 80
                             else reported_cost)));
                tt = (case map_of (topology_table r) dest of
                        None \<Rightarrow> AList.update dest [] (topology_table r)
                      | Some m \<Rightarrow> topology_table r);
                tt = AList.map_entry dest (AList.update neighbor_name reported_cost) tt
            in recalculate_dual (r\<lparr>topology_table := tt\<rparr>) now dest))"

definition handle_update :: "router \<Rightarrow> rat \<Rightarrow> string \<Rightarrow> ADUP_Route_Entry list \<Rightarrow> router" where
  "handle_update r now neighbor_name routes =
     (if map_of (neighbor_table r) neighbor_name = None then r
      else fold (handle_route now neighbor_name) routes r)"

definition handle_packet :: "router \<Rightarrow> rat \<Rightarrow> string \<Rightarrow> packet \<Rightarrow> router" where
  "handle_packet r now sender pkt =
     (case pkt of
        Hello h \<Rightarrow> handle_hello r now sender h
      | Update routes \<Rightarrow> handle_update r now sender routes
      | Other_Packet \<Rightarrow> r)"

section \<open>Decay and reset sweeps\<close>

text \<open>One pass of the loop of \<^verbatim>\<open>apply_cost_decay\<close> after its timeout of 120. The loop
  walks the entries of the FIB and multiplies the cost kept in the entry itself; the
  topology table is read and written by the key \<^verbatim>\<open>dest\<close>.\<close>

definition decays :: "fib_entry \<Rightarrow> bool" where
  "decays route_info \<longleftrightarrow> next_hop route_info \<noteq> ''self'' \<and> total_cost route_info > 10"

definition decay_entry :: "fib_entry \<Rightarrow> fib_entry" where
  "decay_entry route_info =
     (if decays route_info then route_info\<lparr>total_cost := total_cost route_info * 0.95\<rparr>
      else route_info)"

definition decay_reported :: "rat str_dict \<Rightarrow> rat str_dict" where
  "decay_reported m = map (\<lambda>(nb, v). (nb, if v > 10 then v * 0.95 else v)) m"

fun decay_topology :: "fib_entry str_dict \<Rightarrow> rat str_dict str_dict \<Rightarrow> rat str_dict str_dict" where
  "decay_topology [] tt = tt"
| "decay_topology ((dest, route_info) # rest) tt =
     decay_topology rest
       (if decays route_info then AList.map_entry dest decay_reported tt else tt)"

fun schedule_learned :: "fib_entry str_dict \<Rightarrow> string list" where
  "schedule_learned [] = []"
| "schedule_learned ((dest, route_info) # rest) =
     (if next_hop route_info \<noteq> ''self'' then dest # schedule_learned rest
      else schedule_learned rest)"

definition apply_cost_decay :: "router \<Rightarrow> router" where
  "apply_cost_decay r =
     (let routes_updated = list_ex (\<lambda>(dest, route_info). decays route_info) (fib r);
          r1 = r\<lparr>fib := map (\<lambda>(dest, route_info). (dest, decay_entry route_info)) (fib r),
                 topology_table := decay_topology (fib r) (topology_table r)\<rparr>
      in if routes_updated
         then r1\<lparr>scheduled_updates := scheduled_updates r1 @ schedule_learned (fib r1)\<rparr>
         else r1)"

text \<open>One pass of the loop of \<^verbatim>\<open>monitor_and_reset_costs\<close> after its timeout of 30.\<close>

definition resets :: "fib_entry \<Rightarrow> bool" where
  "resets route_info \<longleftrightarrow> next_hop route_info \<noteq> ''self'' \<and> total_cost route_info > 60"

fun reset_entries :: "fib_entry str_dict \<Rightarrow> router \<Rightarrow> router" where
  "reset_entries [] r = r"
| "reset_entries ((dest, route_info) # rest) r =
     reset_entries rest
       (if resets route_info
        then r\<lparr>fib := AList.delete dest (fib r),
               topology_table := AList.delete dest (topology_table r)\<rparr>
        else r)"

definition monitor_and_reset_costs :: "router \<Rightarrow> router" where
  "monitor_and_reset_costs r =
     (let reset_needed = list_ex (\<lambda>(dest, route_info). resets route_info) (fib r);
          r1 = reset_entries (fib r) r
      in if reset_needed then trigger_update (r1\<lparr>cost_history := Map.empty\<rparr>) None
         else r1)"

section \<open>Sources of the link metrics\<close>

text \<open>The HELLO that \<^verbatim>\<open>send_hellos\<close> builds. The products of the random draws and of the
  time factor are parameters (\<open>d\<close>, \<open>j\<close>, \<open>c\<close>, \<open>s\<close> after \<^verbatim>\<open>int(..)\<close>, \<open>l\<close> the
  \<^verbatim>\<open>dynamic_loss\<close>); the clamps are those of the code.\<close>

definition sent_hello :: "int \<Rightarrow> int \<Rightarrow> rat \<Rightarrow> int \<Rightarrow> int \<Rightarrow> ADUP_Hello" where
  "sent_hello d j l c s =
     \<lparr>hello_delay = of_int (max 5 (min 120 d)),
      hello_jitter = of_int (max 1 (min 20 j)),
      hello_packet_loss = max 0.05 (min 8.0 l),
      hello_congestion = of_int (max 0 (min 50 c)),
      hello_link_stability = of_int (max 70 (min 100 s))\<rparr>"

text \<open>One pass of the loop of \<^verbatim>\<open>update_dynamic_metrics\<close>. For every neighbor the draws of
  that pass are a parameter: \<^verbatim>\<open>time_factor\<close> (a sum of a sine and a cosine of the virtual
  time, taken as a rational), \<^verbatim>\<open>random_factor\<close>, \<^verbatim>\<open>congestion_factor\<close> and
  \<^verbatim>\<open>spike_factor\<close>. The bases are the constants of \<^verbatim>\<open>self.metric_variation\<close>.\<close>

record draws =
  time_factor :: rat
  random_factor :: rat
  congestion_factor :: rat
  spike_factor :: rat

definition varied_metrics :: "draws \<Rightarrow> metrics" where
  "varied_metrics dr =
     (let base_delay = 15; base_jitter = 8; base_loss = 0.005; base_congestion = 0.08;
          new_delay = max 1 (min 80 (base_delay * \<bar>time_factor dr\<bar> * random_factor dr));
          new_jitter = max 0.1 (min 15 (base_jitter * random_factor dr));
          new_loss_raw = base_loss * 100 * \<bar>time_factor dr\<bar> * random_factor dr *
                         congestion_factor dr * spike_factor dr;
          new_loss = max 0.01 (min 8.0 new_loss_raw);
          new_congestion =
            max 0 (min 50 (base_congestion * 100 * \<bar>time_factor dr\<bar> * random_factor dr))
      in [''delay'' \<mapsto> new_delay, ''jitter'' \<mapsto> new_jitter, ''packet_loss'' \<mapsto> new_loss,
          ''congestion'' \<mapsto> new_congestion,
          ''link_stability'' \<mapsto> max 50 (min 100 (100 - \<bar>time_factor dr - 1\<bar> * 30)),
          ''bandwidth_utilization'' \<mapsto>
            max 10 (min 90 (50 * \<bar>time_factor dr\<bar> * random_factor dr))])"

definition update_dynamic_metrics :: "router \<Rightarrow> (string \<Rightarrow> draws) \<Rightarrow> router" where
  "update_dynamic_metrics r drawn =
     r\<lparr>neighbor_table :=
         map (\<lambda>(neighbor_name, neighbor_info).
                (neighbor_name,
                 neighbor_info\<lparr>metrics := metrics neighbor_info ++ varied_metrics (drawn neighbor_name)\<rparr>))
           (neighbor_table r)\<rparr>"

section \<open>Vocabulary of the properties\<close>


definition same_tables :: "router \<Rightarrow> router \<Rightarrow> bool" where
  "same_tables r r' \<longleftrightarrow>
     name r' = name r \<and> interfaces r' = interfaces r \<and> networks r' = networks r \<and>
     neighbor_table r' = neighbor_table r \<and> fib r' = fib r \<and>
     topology_table r' = topology_table r \<and> metric_weights r' = metric_weights r \<and>
     route_changes r' = route_changes r \<and> path_usage r' = path_usage r \<and>
     scheduled_updates r' = scheduled_updates r"

definition history_positive :: "router \<Rightarrow> bool" where
  "history_positive r \<longleftrightarrow> (\<forall>k h. cost_history r k = Some h \<longrightarrow> (\<forall>x \<in> set h. 0 < x))"

definition metrics_positive :: "router \<Rightarrow> bool" where
  "metrics_positive r \<longleftrightarrow>
     (\<forall>(nb, info) \<in> set (neighbor_table r). 0 < calculate_composite_cost r (metrics info))"

definition reported_nonneg :: "router \<Rightarrow> bool" where
  "reported_nonneg r \<longleftrightarrow>
     (\<forall>(dest, m) \<in> set (topology_table r). \<forall>(nb, v) \<in> set m. 0 \<le> v)"

definition fib_cost_bound :: "router \<Rightarrow> bool" where
  "fib_cost_bound r \<longleftrightarrow>
     (\<forall>(dest, e) \<in> set (fib r). next_hop e \<noteq> ''self'' \<longrightarrow> 0 < total_cost e \<and> total_cost e \<le> 80)"

definition ceiling_damping :: "rat \<Rightarrow> rat" where
  "ceiling_damping t = (let t = min t 80 in if t > 50 then 50 + (t - 50) * 0.7 else t)"

definition installed_route :: "candidate \<Rightarrow> fib_entry" where
  "installed_route pinfo =
     \<lparr>next_hop = neighbor pinfo, total_cost = cand_total_cost pinfo, fib_total_delay = None,
      stability = Some (cand_stability pinfo), congestion = Some (cand_congestion pinfo),
      packet_loss = Some (cand_packet_loss pinfo),
      selection_reason = Some (cand_selection_reason pinfo)\<rparr>"

definition router_inv :: "router \<Rightarrow> bool" where
  "router_inv r \<longleftrightarrow>
     metrics_positive r \<and> reported_nonneg r \<and> history_positive r \<and> fib_cost_bound r"

definition capped_cost :: "router \<Rightarrow> string \<Rightarrow> string \<Rightarrow> rat \<Rightarrow> rat" where
  "capped_cost r dest nb reported_cost =
     (case map_of (topology_table r) dest of
        None \<Rightarrow> reported_cost
      | Some m \<Rightarrow>
          (case map_of m nb of
             None \<Rightarrow> reported_cost
           | Some old_cost \<Rightarrow>
               (if reported_cost > old_cost * 2.0 then min (old_cost * 1.5) 80
                else reported_cost)))"

definition store_reported :: "router \<Rightarrow> string \<Rightarrow> string \<Rightarrow> rat \<Rightarrow> router" where
  "store_reported r dest nb c =
     r\<lparr>topology_table :=
         AList.map_entry dest (AList.update nb c)
           (case map_of (topology_table r) dest of
              None \<Rightarrow> AList.update dest [] (topology_table r)
            | Some m \<Rightarrow> topology_table r)\<rparr>"

definition reset_keys :: "fib_entry str_dict \<Rightarrow> string list" where
  "reset_keys items = map fst (filter (\<lambda>q. resets (snd q)) items)"

text \<open>The value of \<^verbatim>\<open>topology_table[dest][neighbor]\<close>, when both keys are there.\<close>

definition reported :: "router \<Rightarrow> string \<Rightarrow> string \<Rightarrow> rat option" where
  "reported r dest nb =
     (case map_of (topology_table r) dest of None \<Rightarrow> None | Some m \<Rightarrow> map_of m nb)"

subsection \<open>A three-router line R1 - R2 - R3\<close>

text \<open>The topology of \<^verbatim>\<open>Simulation.create_topology\<close>, with the events of a start-up:
  R1 installs and advertises its network, R2 hears a HELLO and then the UPDATE of R1.\<close>

definition link12 :: link where
  "link12 = \<lparr>router1 = ''R1'', router2 = ''R2''\<rparr>"

definition link23 :: link where
  "link23 = \<lparr>router1 = ''R2'', router2 = ''R3''\<rparr>"

definition hello10 :: ADUP_Hello where
  "hello10 = \<lparr>hello_delay = 10, hello_jitter = 2, hello_packet_loss = 1,
              hello_congestion = 20, hello_link_stability = 90\<rparr>"

definition R1_start :: router where
  "R1_start = trigger_update (Router_init ''R1'' [(''eth0'', Some link12)] [''192.168.1.0'']) None"

definition R2_start :: router where
  "R2_start =
     handle_packet
       (Router_init ''R2'' [(''eth0'', Some link12), (''eth1'', Some link23)] [''192.168.2.0''])
       3 ''R1'' (Hello hello10)"

definition R2_learned :: router where
  "R2_learned = handle_packet R2_start 4 ''R1'' (Update [route_entry_for ''192.168.1.0'' 0])"

definition R1_heard :: router where
  "R1_heard =
     handle_packet (handle_packet R1_start 5 ''R2'' (Hello hello10)) 6 ''R2''
       (Update [route_entry_for ''192.168.1.0'' 9.9])"


subsection \<open>A router with learned routes\<close>

text \<open>R2 with two live neighbors, a route through each of them, one of them above the
  advertisement threshold, and a route left behind by a neighbor R9 that has timed out.\<close>

definition via :: "string \<Rightarrow> rat \<Rightarrow> fib_entry" where
  "via nb cost =
     \<lparr>next_hop = nb, total_cost = cost, fib_total_delay = None, stability = Some 100,
      congestion = Some 20, packet_loss = Some 1,
      selection_reason = Some ''Optimal path (low cost, high stability)''\<rparr>"

definition R2_routes :: router where
  "R2_routes =
     (Router_init ''R2'' [(''eth0'', Some link12), (''eth1'', Some link23)] [''192.168.2.0''])
     \<lparr>neighbor_table :=
        [(''R1'', \<lparr>last_seen = 3, metrics = hello_metrics hello10\<rparr>),
         (''R3'', \<lparr>last_seen = 10, metrics = hello_metrics hello10\<rparr>)],
      fib :=
        [(''192.168.2.0'', self_entry), (''10.0.0.0'', via ''R3'' 40),
         (''10.0.1.0'', via ''R1'' 71), (''10.0.2.0'', via ''R9'' 20)],
      topology_table :=
        [(''10.0.0.0'', [(''R3'', 30), (''R1'', 10)]), (''10.0.1.0'', [(''R1'', 75)]),
         (''10.0.2.0'', [(''R9'', 5)])],
      cost_history := [cost_key ''10.0.0.0'' ''R1'' \<mapsto> [10, 20]],
      loop_detection :=
        [cost_key ''10.0.0.0'' ''R1'' \<mapsto>
           [(0, 19.9), (5, 20.9), (10, 19.9), (15, 20.9), (20, 19.9), (25, 20.9)]]\<rparr>"

subsection \<open>Three reports to a router without a route\<close>

text \<open>R2 after its route to \<^verbatim>\<open>10.0.0.0\<close> through R1 has been evicted: R1 is a live neighbor,
  the FIB holds the connected network only, no cost is recorded for the prefix, and
  \<^verbatim>\<open>loop_detection\<close> still holds the totals 58, 62, 66, 70 sampled for it
  (\<^verbatim>\<open>monitor_and_reset_costs\<close> clears \<^verbatim>\<open>cost_history\<close> only). R1 then reports the costs
  10, 25 and 90 for the prefix.\<close>

definition R2_reset :: router where
  "R2_reset =
     (Router_init ''R2'' [(''eth0'', Some link12), (''eth1'', Some link23)] [''192.168.2.0''])
     \<lparr>neighbor_table := [(''R1'', \<lparr>last_seen = 30, metrics = hello_metrics hello10\<rparr>)],
      fib := [(''192.168.2.0'', self_entry)],
      loop_detection :=
        [cost_key ''10.0.0.0'' ''R1'' \<mapsto> [(10, 58), (15, 62), (20, 66), (25, 70)]]\<rparr>"

definition R2_report1 :: router where
  "R2_report1 = handle_update R2_reset 31 ''R1'' [route_entry_for ''10.0.0.0'' 10]"

definition R2_report2 :: router where
  "R2_report2 = handle_update R2_report1 32 ''R1'' [route_entry_for ''10.0.0.0'' 25]"

definition R2_report3 :: router where
  "R2_report3 = handle_update R2_report2 33 ''R1'' [route_entry_for ''10.0.0.0'' 90]"

subsection \<open>The words of the specification, for comparison with the code\<close>

text \<open>The exponential moving average with smoothing factor \<open>alpha\<close> that weights the newest
  sample most: it starts from the oldest sample and takes the samples in the order in which
  they were recorded.\<close>

fun spec_ema :: "rat \<Rightarrow> rat list \<Rightarrow> rat" where
  "spec_ema alpha [] = 0"
| "spec_ema alpha (x # xs) = fold (\<lambda>sample ema. alpha * sample + (1 - alpha) * ema) xs x"

text \<open>Stabilization as the specification words it: with at least 3 samples that
  average, capped at 1.20 times the previous sample and at 80; else \<open>min(c, 60)\<close>.\<close>

definition spec_stabilized_value :: "rat list \<Rightarrow> rat \<Rightarrow> rat" where
  "spec_stabilized_value history new_cost =
     (if length history \<ge> 3
      then min (min (spec_ema 0.5 history) (1.20 * history ! (length history - 2))) 80
      else min new_cost 60)"

text \<open>Loop detection as the specification words it: over the last 5 recorded costs
  \<open>max - min > 30\<close>, or among the last 4 recorded costs 3 strict increases.\<close>

definition spec_loop_verdict :: "(rat \<times> rat) list \<Rightarrow> bool" where
  "spec_loop_verdict history \<longleftrightarrow>
     (length history \<ge> 5 \<and>
      list_max (map snd (last_n 5 history)) - list_min (map snd (last_n 5 history)) > 30) \<or>
     (length history \<ge> 4 \<and> count_increases (map snd (last_n 4 history)) \<ge> 3)"

section \<open>Auxiliary lemmas\<close>


subsection \<open>Lists and association lists\<close>

lemma send_all_eq:
  "send_update_on_all_interfaces ifs pkt = [(i, l, pkt). (i, Some l) \<leftarrow> ifs]"
  by (induction ifs pkt rule: send_update_on_all_interfaces.induct) auto

lemma fold_delete_filter:
  "fold AList.delete ks al = filter (\<lambda>p. fst p \<notin> set ks) al"
  by (induction ks arbitrary: al) (auto simp: AList.delete_eq intro: filter_cong)



subsection \<open>What path selection leaves unchanged\<close>

lemma same_tables_refl: "same_tables r r"
  by (simp add: same_tables_def)

lemma same_tables_trans: "same_tables r r1 \<Longrightarrow> same_tables r1 r2 \<Longrightarrow> same_tables r r2"
  by (simp add: same_tables_def)

lemma same_tables_detect: "same_tables r (fst (detect_cost_loop r now dest nb c))"
  by (simp add: same_tables_def detect_cost_loop_def Let_def)

lemma same_tables_stabilize: "same_tables r (fst (stabilize_cost r dest nb c))"
  by (simp add: same_tables_def stabilize_cost_def Let_def)

lemma same_tables_candidate_for: "same_tables r (fst (candidate_for now dest nb c r))"
  by (simp add: same_tables_def candidate_for_def detect_cost_loop_def stabilize_cost_def
      Let_def split: option.splits)

lemma same_tables_collect: "same_tables r (fst (collect_candidates now dest items r))"
proof (induction items arbitrary: r)
  case Nil
  then show ?case by (simp add: same_tables_refl)
next
  case (Cons item items)
  obtain nb c where item: "item = (nb, c)" by (cases item)
  obtain r1 cand where cf: "candidate_for now dest nb c r = (r1, cand)"
    by (cases "candidate_for now dest nb c r")
  have "same_tables r r1" using same_tables_candidate_for[of r now dest nb c] cf by simp
  moreover have "same_tables r1 (fst (collect_candidates now dest items r1))" by (rule Cons.IH)
  ultimately show ?case using item cf
    by (auto simp: split: prod.splits intro: same_tables_trans)
qed

lemma same_tables_log_path: "same_tables r (log_path_analysis r now dest cands)"
  by (simp add: same_tables_def log_path_analysis_def Let_def)

lemma same_tables_selection: "same_tables r (fst (advanced_path_selection r now dest))"
proof -
  obtain r1 cands where c: "collect_candidates now dest
      (case map_of (topology_table r) dest of None \<Rightarrow> [] | Some m \<Rightarrow> m) r = (r1, cands)"
    by (cases "collect_candidates now dest
      (case map_of (topology_table r) dest of None \<Rightarrow> [] | Some m \<Rightarrow> m) r")
  have s: "same_tables r r1"
    using same_tables_collect[of r now dest "case map_of (topology_table r) dest of None \<Rightarrow> [] | Some m \<Rightarrow> m"] c
    by simp
  show ?thesis
    using c s same_tables_trans[OF s same_tables_log_path]
    by (simp add: advanced_path_selection_def split: list.splits)
qed

lemma dual_no_candidate:
  assumes "snd (advanced_path_selection r now dest) = None"
  shows "same_tables r (recalculate_dual r now dest)"
proof -
  obtain r1 b where a: "advanced_path_selection r now dest = (r1, b)"
    by (cases "advanced_path_selection r now dest")
  with assms have "b = None" by simp
  then show ?thesis using a same_tables_selection[of r now dest]
    by (simp add: recalculate_dual_def)
qed

subsection \<open>Bounds of the stabilized cost\<close>

lemma foldr_smooth_pos:
  "0 < s \<Longrightarrow> \<forall>x \<in> set xs. 0 < x \<Longrightarrow>
   0 < foldr (\<lambda>h smoothed. (1/2) * h + (1 - 1/2) * smoothed) xs (s::rat)"
  by (induction xs) (auto intro: add_pos_pos)

lemma smooth_history_pos:
  assumes "h \<noteq> []" "\<forall>x \<in> set h. 0 < x"
  shows "0 < smooth_history 0.5 h"
proof -
  have "0 < last h" using assms by simp
  moreover have "\<forall>x \<in> set (butlast h). 0 < x" using assms by (meson in_set_butlastD)
  ultimately show ?thesis unfolding smooth_history_def
    using foldr_smooth_pos[of "last h" "butlast h"] by simp
qed

lemma stabilized_value_bounds:
  assumes "h \<noteq> []" "\<forall>x \<in> set h. 0 < x" "0 < c"
  shows "0 < stabilized_value h c \<and> stabilized_value h c \<le> 80"
proof (cases "length h \<ge> 3")
  case True
  have sp: "0 < smooth_history 0.5 h" by (rule smooth_history_pos[OF assms(1,2)])
  have "h ! (length h - 2) \<in> set h" using True by simp
  then have pp: "0 < h ! (length h - 2)" using assms(2) by blast
  show ?thesis using True sp pp
    by (simp add: stabilized_value_def Let_def min_def)
next
  case False
  then show ?thesis using assms(3) by (simp add: stabilized_value_def min_def)
qed

lemma set_push_cost: "set (push_cost old c) \<subseteq> insert c (set old)"
  by (cases old) (auto simp: push_cost_def Let_def)

lemma push_cost_nonempty: "push_cost old c \<noteq> []"
  by (cases old; cases "tl old") (auto simp: push_cost_def Let_def)

lemma stabilize_cost_bounds:
  assumes "history_positive r" "0 < c"
  shows "history_positive (fst (stabilize_cost r dest nb c)) \<and>
         0 < snd (stabilize_cost r dest nb c) \<and> snd (stabilize_cost r dest nb c) \<le> 80"
proof -
  define old where "old = (case cost_history r (cost_key dest nb) of None \<Rightarrow> [] | Some h \<Rightarrow> h)"
  have oldpos: "\<forall>x \<in> set old. 0 < x"
    unfolding old_def using assms(1)
    by (cases "cost_history r (cost_key dest nb)") (auto simp: history_positive_def)
  have hp: "\<forall>x \<in> set (push_cost old c). 0 < x"
    using oldpos assms(2) set_push_cost[of old c] by auto
  have "history_positive (fst (stabilize_cost r dest nb c))"
    using assms(1) hp by (auto simp: stabilize_cost_def Let_def history_positive_def old_def)
  moreover have "0 < stabilized_value (push_cost old c) c \<and> stabilized_value (push_cost old c) c \<le> 80"
    by (rule stabilized_value_bounds[OF push_cost_nonempty hp assms(2)])
  ultimately show ?thesis by (simp add: stabilize_cost_def Let_def old_def)
qed

lemma history_positive_detect:
  "history_positive (fst (detect_cost_loop r now dest nb c)) = history_positive r"
  by (simp add: detect_cost_loop_def Let_def history_positive_def)

lemma ceiling_damping_pos: "0 < t \<Longrightarrow> 0 < ceiling_damping t"
  by (auto simp: ceiling_damping_def Let_def min_def field_simps)

subsection \<open>Candidates\<close>

lemma candidate_for_unknown:
  "map_of (neighbor_table r) nb = None \<Longrightarrow> candidate_for now dest nb c r = (r, None)"
  by (simp add: candidate_for_def)

lemma candidate_for_known:
  fixes c :: rat and now :: rat and dest :: string
  assumes "map_of (neighbor_table r) nb = Some info"
  defines "tot \<equiv> calculate_composite_cost r (metrics info) + c"
  defines "r1 \<equiv> fst (detect_cost_loop r now dest nb tot)"
  shows "candidate_for now dest nb c r =
     (if snd (detect_cost_loop r now dest nb tot) then (r1, None)
      else (fst (stabilize_cost r1 dest nb (ceiling_damping tot)),
            Some \<lparr>neighbor = nb,
                  cand_total_cost = snd (stabilize_cost r1 dest nb (ceiling_damping tot)),
                  combined_score =
                    snd (stabilize_cost r1 dest nb (ceiling_damping tot)) * 0.6 +
                    (100 - calculate_link_stability r now nb) * 0.15 +
                    get0 (metrics info) ''congestion'' * 0.1 +
                    get0 (metrics info) ''packet_loss'' * 10 * 0.1 +
                    calculate_exploration_bonus r nb dest * 0.05,
                  cand_stability = calculate_link_stability r now nb,
                  cand_congestion = get0 (metrics info) ''congestion'',
                  cand_packet_loss = get0 (metrics info) ''packet_loss'',
                  exploration_bonus = calculate_exploration_bonus r nb dest,
                  cand_selection_reason =
                    determine_selection_reason
                      (snd (stabilize_cost r1 dest nb (ceiling_damping tot)))
                      (calculate_link_stability r now nb)
                      (get0 (metrics info) ''congestion'')
                      (get0 (metrics info) ''packet_loss'')\<rparr>))"
  using assms(1) unfolding tot_def r1_def
  by (simp add: candidate_for_def Let_def ceiling_damping_def split: prod.splits)
    (simp add: detect_cost_loop_def stabilize_cost_def Let_def calculate_link_stability_def
       calculate_exploration_bonus_def)

lemma metrics_positive_same: "same_tables r r' \<Longrightarrow> metrics_positive r' = metrics_positive r"
  by (simp add: same_tables_def metrics_positive_def calculate_composite_cost_def)

lemma candidate_for_inv:
  assumes mp: "metrics_positive r" and hp: "history_positive r" and c: "0 \<le> c"
  shows "history_positive (fst (candidate_for now dest nb c r)) \<and>
         (\<forall>x. snd (candidate_for now dest nb c r) = Some x \<longrightarrow>
              0 < cand_total_cost x \<and> cand_total_cost x \<le> 80)"
proof (cases "map_of (neighbor_table r) nb")
  case None
  then show ?thesis using hp by (simp add: candidate_for_unknown)
next
  case (Some info)
  define tot where "tot = calculate_composite_cost r (metrics info) + c"
  define r1 where "r1 = fst (detect_cost_loop r now dest nb tot)"
  have "(nb, info) \<in> set (neighbor_table r)" using Some by (rule map_of_SomeD)
  then have "0 < calculate_composite_cost r (metrics info)"
    using mp by (auto simp: metrics_positive_def)
  then have tp: "0 < tot" using c by (simp add: tot_def)
  have h1: "history_positive r1" using hp by (simp add: r1_def history_positive_detect)
  have sb: "history_positive (fst (stabilize_cost r1 dest nb (ceiling_damping tot))) \<and>
        0 < snd (stabilize_cost r1 dest nb (ceiling_damping tot)) \<and>
        snd (stabilize_cost r1 dest nb (ceiling_damping tot)) \<le> 80"
    by (rule stabilize_cost_bounds[OF h1 ceiling_damping_pos[OF tp]])
  show ?thesis
    unfolding candidate_for_known[OF Some, where c=c and now=now and dest=dest]
    using h1 sb by (auto simp: tot_def r1_def)
qed

lemma collect_candidates_inv:
  assumes "metrics_positive r" "history_positive r" "\<forall>(nb, c) \<in> set items. 0 \<le> c"
  shows "history_positive (fst (collect_candidates now dest items r)) \<and>
         (\<forall>x \<in> set (snd (collect_candidates now dest items r)).
              0 < cand_total_cost x \<and> cand_total_cost x \<le> 80)"
  using assms
proof (induction items arbitrary: r)
  case Nil
  then show ?case by simp
next
  case (Cons item items)
  obtain nb c where item: "item = (nb, c)" by (cases item)
  obtain r1 cand where cf: "candidate_for now dest nb c r = (r1, cand)"
    by (cases "candidate_for now dest nb c r")
  have c0: "0 \<le> c" using Cons.prems(3) item by simp
  have ci: "history_positive r1 \<and> (\<forall>x. cand = Some x \<longrightarrow> 0 < cand_total_cost x \<and> cand_total_cost x \<le> 80)"
    using candidate_for_inv[OF Cons.prems(1,2) c0, of now dest nb] cf by simp
  have "same_tables r r1" using same_tables_candidate_for[of r now dest nb c] cf by simp
  then have mp1: "metrics_positive r1" using Cons.prems(1) by (simp add: metrics_positive_same)
  have rest: "\<forall>(nb, c) \<in> set items. 0 \<le> c" using Cons.prems(3) by simp
  have ih: "history_positive (fst (collect_candidates now dest items r1)) \<and>
         (\<forall>x \<in> set (snd (collect_candidates now dest items r1)).
              0 < cand_total_cost x \<and> cand_total_cost x \<le> 80)"
    using ci mp1 rest by (intro Cons.IH) auto
  show ?case using item cf ih ci
    by (cases "collect_candidates now dest items r1"; cases cand) auto
qed

lemma history_positive_log_path:
  "history_positive (log_path_analysis r now dest cands) = history_positive r"
  by (simp add: history_positive_def log_path_analysis_def Let_def)

lemma selection_inv:
  assumes "metrics_positive r" "history_positive r" "reported_nonneg r"
  shows "history_positive (fst (advanced_path_selection r now dest)) \<and>
         (\<forall>x. snd (advanced_path_selection r now dest) = Some x \<longrightarrow>
              0 < cand_total_cost x \<and> cand_total_cost x \<le> 80)"
proof -
  define items where "items = (case map_of (topology_table r) dest of None \<Rightarrow> [] | Some m \<Rightarrow> m)"
  have nn: "\<forall>(nb, c) \<in> set items. 0 \<le> c"
  proof (cases "map_of (topology_table r) dest")
    case None
    then show ?thesis by (simp add: items_def)
  next
    case (Some m)
    then have "(dest, m) \<in> set (topology_table r)" by (rule map_of_SomeD)
    then show ?thesis using assms(3) Some by (auto simp: items_def reported_nonneg_def)
  qed
  obtain r1 cands where cc: "collect_candidates now dest items r = (r1, cands)"
    by (cases "collect_candidates now dest items r")
  have ci: "history_positive r1 \<and> (\<forall>x \<in> set cands. 0 < cand_total_cost x \<and> cand_total_cost x \<le> 80)"
    using collect_candidates_inv[OF assms(1,2) nn, of now dest] cc by simp
  have ss: "set (sort_key combined_score cands) = set cands" by simp
  show ?thesis
  proof (cases "sort_key combined_score cands")
    case Nil
    then show ?thesis using cc ci
      by (simp add: advanced_path_selection_def items_def[symmetric])
  next
    case (Cons best others)
    then have "best \<in> set cands" using ss by (metis list.set_intros(1))
    then show ?thesis using cc ci Cons
      by (simp add: advanced_path_selection_def items_def[symmetric] history_positive_log_path)
  qed
qed

subsection \<open>The invariant through recalculation and UPDATE handling\<close>

lemma set_update_subset: "set (AList.update k v al) \<subseteq> insert (k, v) (set al)"
  by (induction al) auto

lemma install_networks_fields:
  "neighbor_table (install_networks nets r) = neighbor_table r \<and>
   topology_table (install_networks nets r) = topology_table r \<and>
   metric_weights (install_networks nets r) = metric_weights r \<and>
   cost_history (install_networks nets r) = cost_history r \<and>
   route_changes (install_networks nets r) = route_changes r \<and>
   interfaces (install_networks nets r) = interfaces r \<and>
   networks (install_networks nets r) = networks r \<and>
   fib (install_networks nets r) = fold (\<lambda>net. AList.update net self_entry) nets (fib r)"
  by (induction nets arbitrary: r) simp_all

lemma fold_self_entries:
  "set (fold (\<lambda>net. AList.update net self_entry) nets f) \<subseteq> set f \<union> {(net, self_entry) | net. True}"
proof (induction nets arbitrary: f)
  case Nil
  then show ?case by simp
next
  case (Cons n nets)
  show ?case using Cons.IH[of "AList.update n self_entry f"] set_update_subset[of n self_entry f]
    by auto
qed

lemma fold_self_entries_keys:
  "fst ` set f \<subseteq> fst ` set (fold (\<lambda>net. AList.update net self_entry) nets f)"
proof (induction nets arbitrary: f)
  case Nil
  then show ?case by simp
next
  case (Cons n nets)
  show ?case using Cons.IH[of "AList.update n self_entry f"] dom_update[of n self_entry f]
    by auto
qed

lemma recalculate_dual_result:
  assumes "advanced_path_selection r now dest = (r1, b)"
  shows "neighbor_table (recalculate_dual r now dest) = neighbor_table r1 \<and>
         topology_table (recalculate_dual r now dest) = topology_table r1 \<and>
         metric_weights (recalculate_dual r now dest) = metric_weights r1 \<and>
         cost_history (recalculate_dual r now dest) = cost_history r1 \<and>
         interfaces (recalculate_dual r now dest) = interfaces r1 \<and>
         networks (recalculate_dual r now dest) = networks r1 \<and>
         (fib (recalculate_dual r now dest) = fib r1 \<or>
          (\<exists>p. b = Some p \<and>
             fib (recalculate_dual r now dest) =
               fold (\<lambda>net. AList.update net self_entry) (if dest = [] then networks r1 else [])
                 (AList.update dest (installed_route p) (fib r1))))"
proof (cases b)
  case None
  then show ?thesis using assms by (simp add: recalculate_dual_def)
next
  case (Some p)
  then show ?thesis using assms
    by (simp add: recalculate_dual_def Let_def trigger_update_def log_route_change_def
        install_networks_fields installed_route_def)
qed

lemma fib_cost_bound_fold_self:
  assumes "\<forall>(d, e) \<in> set f. next_hop e \<noteq> ''self'' \<longrightarrow> 0 < total_cost e \<and> total_cost e \<le> 80"
  shows "\<forall>(d, e) \<in> set (fold (\<lambda>net. AList.update net self_entry) nets f).
            next_hop e \<noteq> ''self'' \<longrightarrow> 0 < total_cost e \<and> total_cost e \<le> 80"
  using assms fold_self_entries[of nets f] by (auto simp: self_entry_def)

lemma fib_cost_bound_update:
  assumes "\<forall>(d, e) \<in> set f. next_hop e \<noteq> ''self'' \<longrightarrow> 0 < total_cost e \<and> total_cost e \<le> 80"
    and "next_hop v \<noteq> ''self'' \<longrightarrow> 0 < total_cost v \<and> total_cost v \<le> 80"
  shows "\<forall>(d, e) \<in> set (AList.update k v f).
            next_hop e \<noteq> ''self'' \<longrightarrow> 0 < total_cost e \<and> total_cost e \<le> 80"
  using assms set_update_subset[of k v f] by auto

lemma router_inv_recalculate_dual:
  assumes "router_inv r"
  shows "router_inv (recalculate_dual r now dest)"
proof -
  obtain r1 b where a: "advanced_path_selection r now dest = (r1, b)"
    by (cases "advanced_path_selection r now dest")
  have st: "same_tables r r1" using same_tables_selection[of r now dest] a by simp
  have mp: "metrics_positive r" and rn: "reported_nonneg r" and hp: "history_positive r"
    and fb: "fib_cost_bound r" using assms by (simp_all add: router_inv_def)
  have si: "history_positive r1 \<and> (\<forall>x. b = Some x \<longrightarrow> 0 < cand_total_cost x \<and> cand_total_cost x \<le> 80)"
    using selection_inv[OF mp hp rn, of now dest] a by simp
  note res = recalculate_dual_result[OF a]
  let ?r' = "recalculate_dual r now dest"
  have "same_tables r1 ?r' \<or> True" by simp
  have m': "metrics_positive ?r'"
    using mp st res by (simp add: metrics_positive_def calculate_composite_cost_def same_tables_def)
  have t': "reported_nonneg ?r'"
    using rn st res by (simp add: reported_nonneg_def same_tables_def)
  have h': "history_positive ?r'"
    using si res by (simp add: history_positive_def)
  have f1: "\<forall>(d, e) \<in> set (fib r1). next_hop e \<noteq> ''self'' \<longrightarrow> 0 < total_cost e \<and> total_cost e \<le> 80"
    using fb st by (simp add: fib_cost_bound_def same_tables_def)
  have f': "fib_cost_bound ?r'"
  proof -
    from res have "fib ?r' = fib r1 \<or>
          (\<exists>p. b = Some p \<and>
             fib ?r' =
               fold (\<lambda>net. AList.update net self_entry) (if dest = [] then networks r1 else [])
                 (AList.update dest (installed_route p) (fib r1)))" by simp
    then show ?thesis
    proof
      assume "fib ?r' = fib r1"
      then show ?thesis using f1 by (simp add: fib_cost_bound_def)
    next
      assume "\<exists>p. b = Some p \<and>
             fib ?r' =
               fold (\<lambda>net. AList.update net self_entry) (if dest = [] then networks r1 else [])
                 (AList.update dest (installed_route p) (fib r1))"
      then obtain p where p: "b = Some p" and fp: "fib ?r' =
               fold (\<lambda>net. AList.update net self_entry) (if dest = [] then networks r1 else [])
                 (AList.update dest (installed_route p) (fib r1))" by blast
      have "0 < total_cost (installed_route p) \<and> total_cost (installed_route p) \<le> 80"
        using si p by (simp add: installed_route_def)
      then have "\<forall>(d, e) \<in> set (AList.update dest (installed_route p) (fib r1)).
            next_hop e \<noteq> ''self'' \<longrightarrow> 0 < total_cost e \<and> total_cost e \<le> 80"
        using fib_cost_bound_update[OF f1, of "installed_route p" dest] by blast
      then show ?thesis unfolding fib_cost_bound_def fp
        by (rule fib_cost_bound_fold_self)
    qed
  qed
  show ?thesis using m' t' h' f' by (simp add: router_inv_def)
qed

lemma set_map_entry:
  "(k, v) \<in> set (AList.map_entry k0 f al) \<Longrightarrow>
   (k, v) \<in> set al \<or> (\<exists>v0. (k0, v0) \<in> set al \<and> k = k0 \<and> v = f v0)"
  by (induction al) (auto split: if_splits)

lemma handle_route_unfold:
  "handle_route now nb route r =
     (if (case map_of (fib r) (dest_network route) of None \<Rightarrow> False
          | Some e \<Rightarrow> next_hop e = nb) then r
      else if of_int (total_delay route) > (100::rat) then r
      else recalculate_dual
             (store_reported r (dest_network route) nb
                (capped_cost r (dest_network route) nb (of_int (total_delay route))))
             now (dest_network route))"
  by (simp add: handle_route_def Let_def capped_cost_def store_reported_def)

lemma capped_cost_nonneg:
  assumes "reported_nonneg r" "0 \<le> rc"
  shows "0 \<le> capped_cost r dest nb rc"
proof (cases "map_of (topology_table r) dest")
  case None
  then show ?thesis using assms(2) by (simp add: capped_cost_def)
next
  case (Some m)
  note m = this
  show ?thesis
  proof (cases "map_of m nb")
    case None
    then show ?thesis using m assms(2) by (simp add: capped_cost_def)
  next
    case (Some old)
    have "(dest, m) \<in> set (topology_table r)" using m by (rule map_of_SomeD)
    moreover have "(nb, old) \<in> set m" using Some by (rule map_of_SomeD)
    ultimately have "0 \<le> old" using assms(1) by (auto simp: reported_nonneg_def)
    then show ?thesis using Some m assms(2) by (simp add: capped_cost_def min_def)
  qed
qed

lemma reported_nonneg_store:
  assumes "reported_nonneg r" "0 \<le> c"
  shows "reported_nonneg (store_reported r dest nb c)"
proof -
  define tt where "tt = (case map_of (topology_table r) dest of
                None \<Rightarrow> AList.update dest [] (topology_table r)
              | Some m \<Rightarrow> topology_table r)"
  have sub: "set tt \<subseteq> insert (dest, []) (set (topology_table r))"
    using set_update_subset[of dest "[]" "topology_table r"]
    by (auto simp: tt_def split: option.splits)
  have t1: "0 \<le> v" if "(d, m) \<in> set tt" "(n, v) \<in> set m" for d m n v
  proof -
    from that(1) sub have "(d, m) = (dest, []) \<or> (d, m) \<in> set (topology_table r)" by blast
    then show ?thesis using that(2) assms(1) by (auto simp: reported_nonneg_def)
  qed
  have "\<forall>(d, m) \<in> set (AList.map_entry dest (AList.update nb c) tt). \<forall>(n, v) \<in> set m. 0 \<le> v"
  proof (clarify)
    fix d m n v
    assume dm: "(d, m) \<in> set (AList.map_entry dest (AList.update nb c) tt)" and nv: "(n, v) \<in> set m"
    from set_map_entry[OF dm] show "0 \<le> v"
    proof
      assume "(d, m) \<in> set tt"
      then show ?thesis using t1 nv by blast
    next
      assume "\<exists>v0. (dest, v0) \<in> set tt \<and> d = dest \<and> m = AList.update nb c v0"
      then obtain v0 where v0: "(dest, v0) \<in> set tt" and m: "m = AList.update nb c v0" by blast
      have "(n, v) \<in> insert (nb, c) (set v0)" using nv m set_update_subset[of nb c v0] by blast
      then show ?thesis using assms(2) t1[OF v0] by blast
    qed
  qed
  then show ?thesis by (simp add: reported_nonneg_def store_reported_def tt_def)
qed

lemma router_inv_store:
  assumes "router_inv r" "0 \<le> c"
  shows "router_inv (store_reported r dest nb c)"
proof -
  have "reported_nonneg (store_reported r dest nb c)"
    using assms by (simp add: router_inv_def reported_nonneg_store)
  moreover have "metrics_positive (store_reported r dest nb c)"
    using assms(1)
    by (simp add: router_inv_def metrics_positive_def store_reported_def calculate_composite_cost_def)
  moreover have "history_positive (store_reported r dest nb c)"
    using assms(1) by (simp add: router_inv_def history_positive_def store_reported_def)
  moreover have "fib_cost_bound (store_reported r dest nb c)"
    using assms(1) by (simp add: router_inv_def fib_cost_bound_def store_reported_def)
  ultimately show ?thesis by (simp add: router_inv_def)
qed

lemma router_inv_handle_route:
  assumes "router_inv r" "0 \<le> total_delay route"
  shows "router_inv (handle_route now nb route r)"
proof -
  have rn: "reported_nonneg r" using assms(1) by (simp add: router_inv_def)
  have "0 \<le> capped_cost r (dest_network route) nb (of_int (total_delay route))"
    using assms(2) by (intro capped_cost_nonneg[OF rn]) simp
  then have "router_inv (store_reported r (dest_network route) nb
                (capped_cost r (dest_network route) nb (of_int (total_delay route))))"
    by (rule router_inv_store[OF assms(1)])
  then have "router_inv (recalculate_dual (store_reported r (dest_network route) nb
                (capped_cost r (dest_network route) nb (of_int (total_delay route))))
             now (dest_network route))"
    by (rule router_inv_recalculate_dual)
  then show ?thesis using assms(1) by (simp add: handle_route_unfold)
qed

lemma router_inv_handle_update:
  assumes "router_inv r" "\<forall>route \<in> set routes. 0 \<le> total_delay route"
  shows "router_inv (handle_update r now nb routes)"
proof -
  have "router_inv (fold (handle_route now nb) routes r)"
    using assms by (induction routes arbitrary: r) (simp_all add: router_inv_handle_route)
  then show ?thesis using assms(1) by (simp add: handle_update_def)
qed

subsection \<open>Frames and FIB keys\<close>

lemma recalculate_dual_frame:
  "neighbor_table (recalculate_dual r now dest) = neighbor_table r \<and>
   topology_table (recalculate_dual r now dest) = topology_table r \<and>
   metric_weights (recalculate_dual r now dest) = metric_weights r \<and>
   interfaces (recalculate_dual r now dest) = interfaces r \<and>
   networks (recalculate_dual r now dest) = networks r"
proof -
  obtain r1 b where a: "advanced_path_selection r now dest = (r1, b)"
    by (cases "advanced_path_selection r now dest")
  have "same_tables r r1" using same_tables_selection[of r now dest] a by simp
  then show ?thesis using recalculate_dual_result[OF a] by (simp add: same_tables_def)
qed

lemma recalculate_dual_keys: "fst ` set (fib r) \<subseteq> fst ` set (fib (recalculate_dual r now dest))"
proof -
  obtain r1 b where a: "advanced_path_selection r now dest = (r1, b)"
    by (cases "advanced_path_selection r now dest")
  have f: "fib r1 = fib r" using same_tables_selection[of r now dest] a by (simp add: same_tables_def)
  from recalculate_dual_result[OF a]
  have "fib (recalculate_dual r now dest) = fib r1 \<or>
          (\<exists>p. b = Some p \<and>
             fib (recalculate_dual r now dest) =
               fold (\<lambda>net. AList.update net self_entry) (if dest = [] then networks r1 else [])
                 (AList.update dest (installed_route p) (fib r1)))" by simp
  then show ?thesis
  proof
    assume "fib (recalculate_dual r now dest) = fib r1"
    then show ?thesis using f by simp
  next
    assume "\<exists>p. b = Some p \<and>
             fib (recalculate_dual r now dest) =
               fold (\<lambda>net. AList.update net self_entry) (if dest = [] then networks r1 else [])
                 (AList.update dest (installed_route p) (fib r1))"
    then obtain p where fp: "fib (recalculate_dual r now dest) =
               fold (\<lambda>net. AList.update net self_entry) (if dest = [] then networks r1 else [])
                 (AList.update dest (installed_route p) (fib r1))" by blast
    have "fst ` set (fib r) \<subseteq> fst ` set (AList.update dest (installed_route p) (fib r1))"
      using f dom_update[of dest "installed_route p" "fib r1"] by auto
    also have "\<dots> \<subseteq> fst ` set (fib (recalculate_dual r now dest))"
      unfolding fp by (rule fold_self_entries_keys)
    finally show ?thesis .
  qed
qed

lemma handle_route_frame:
  "neighbor_table (handle_route now nb route r) = neighbor_table r \<and>
   metric_weights (handle_route now nb route r) = metric_weights r \<and>
   interfaces (handle_route now nb route r) = interfaces r \<and>
   networks (handle_route now nb route r) = networks r"
  by (simp add: handle_route_unfold recalculate_dual_frame) (simp add: store_reported_def)

lemma handle_route_keys: "fst ` set (fib r) \<subseteq> fst ` set (fib (handle_route now nb route r))"
proof -
  have "fib (store_reported r d nb c) = fib r" for d c by (simp add: store_reported_def)
  then show ?thesis
    using recalculate_dual_keys[of "store_reported r (dest_network route) nb
                (capped_cost r (dest_network route) nb (of_int (total_delay route)))" now "dest_network route"]
    by (simp add: handle_route_unfold)
qed

lemma fold_handle_route_frame:
  "neighbor_table (fold (handle_route now nb) routes r) = neighbor_table r \<and>
   metric_weights (fold (handle_route now nb) routes r) = metric_weights r \<and>
   interfaces (fold (handle_route now nb) routes r) = interfaces r \<and>
   networks (fold (handle_route now nb) routes r) = networks r"
  by (induction routes arbitrary: r) (simp_all add: handle_route_frame)

lemma fold_handle_route_keys:
  "fst ` set (fib r) \<subseteq> fst ` set (fib (fold (handle_route now nb) routes r))"
proof (induction routes arbitrary: r)
  case Nil
  then show ?case by simp
next
  case (Cons route routes)
  show ?case using handle_route_keys[of r now nb route] Cons.IH[of "handle_route now nb route r"]
    by simp
qed

lemma handle_update_frame:
  "neighbor_table (handle_update r now nb routes) = neighbor_table r \<and>
   metric_weights (handle_update r now nb routes) = metric_weights r \<and>
   interfaces (handle_update r now nb routes) = interfaces r \<and>
   networks (handle_update r now nb routes) = networks r"
  by (simp add: handle_update_def fold_handle_route_frame)

lemma handle_update_keys: "fst ` set (fib r) \<subseteq> fst ` set (fib (handle_update r now nb routes))"
  by (simp add: handle_update_def fold_handle_route_keys)

lemma handle_hello_frame:
  "fib (handle_hello r now nb h) = fib r \<and> topology_table (handle_hello r now nb h) = topology_table r"
  by (simp add: handle_hello_def prune_neighbors_def)

lemma handle_packet_keys: "fst ` set (fib r) \<subseteq> fst ` set (fib (handle_packet r now nb pkt))"
  by (cases pkt) (simp_all add: handle_packet_def handle_update_keys handle_hello_frame)

lemma apply_cost_decay_keys: "map fst (fib (apply_cost_decay r)) = map fst (fib r)"
  by (simp add: apply_cost_decay_def Let_def case_prod_beta)

lemma trigger_update_keys: "fst ` set (fib r) \<subseteq> fst ` set (fib (trigger_update r d))"
  by (cases d) (auto simp: trigger_update_def install_networks_fields
      intro: fold_self_entries_keys[THEN subsetD])

lemma reported_handle_route:
  "reported (handle_route now nb route r) d n =
     (if (case map_of (fib r) (dest_network route) of None \<Rightarrow> False
          | Some e \<Rightarrow> next_hop e = nb) \<or> of_int (total_delay route) > (100::rat)
      then reported r d n
      else reported (store_reported r (dest_network route) nb
                (capped_cost r (dest_network route) nb (of_int (total_delay route)))) d n)"
  by (simp add: handle_route_unfold reported_def recalculate_dual_frame)

lemma map_of_store:
  "map_of (topology_table (store_reported r dest nb c)) dest =
     Some (AList.update nb c (case map_of (topology_table r) dest of None \<Rightarrow> [] | Some m \<Rightarrow> m))"
  by (cases "map_of (topology_table r) dest")
     (simp_all add: store_reported_def map_of_map_entry update_conv')

lemma reported_store_same: "reported (store_reported r dest nb c) dest nb = Some c"
  by (simp add: reported_def map_of_store update_conv')

lemma reported_store_other:
  "d \<noteq> dest \<or> n \<noteq> nb \<Longrightarrow> reported (store_reported r dest nb c) d n = reported r d n"
proof (cases "d = dest")
  case True
  assume "d \<noteq> dest \<or> n \<noteq> nb"
  with True have "n \<noteq> nb" by simp
  then show ?thesis using True
    by (cases "map_of (topology_table r) dest") (simp_all add: reported_def map_of_store update_conv')
next
  case False
  then show ?thesis
    by (cases "map_of (topology_table r) dest")
       (simp_all add: reported_def store_reported_def map_of_map_entry update_conv')
qed

subsection \<open>Reset and decay sweeps\<close>

lemma reset_entries_tables:
  "fib (reset_entries items r) = fold AList.delete (reset_keys items) (fib r) \<and>
   topology_table (reset_entries items r) = fold AList.delete (reset_keys items) (topology_table r)"
proof (induction items arbitrary: r)
  case Nil
  then show ?case by (simp add: reset_keys_def)
next
  case (Cons item items)
  obtain d e where item: "item = (d, e)" by (cases item)
  show ?case using item by (cases "resets e") (simp_all add: Cons.IH reset_keys_def)
qed

lemma reset_entries_frame:
  "neighbor_table (reset_entries items r) = neighbor_table r \<and>
   metric_weights (reset_entries items r) = metric_weights r \<and>
   cost_history (reset_entries items r) = cost_history r \<and>
   networks (reset_entries items r) = networks r \<and>
   interfaces (reset_entries items r) = interfaces r"
  by (induction items arbitrary: r) auto

lemma monitor_fib:
  "fib (monitor_and_reset_costs r) =
     (if list_ex (\<lambda>(dest, route_info). resets route_info) (fib r)
      then fold (\<lambda>net. AList.update net self_entry) (networks r)
             (filter (\<lambda>p. fst p \<notin> set (reset_keys (fib r))) (fib r))
      else fib r)"
proof (cases "list_ex (\<lambda>(dest, route_info). resets route_info) (fib r)")
  case True
  then show ?thesis
    by (simp add: monitor_and_reset_costs_def Let_def trigger_update_def install_networks_fields
        reset_entries_tables reset_entries_frame fold_delete_filter)
next
  case False
  then have "filter (\<lambda>q. resets (snd q)) (fib r) = []"
    by (auto simp: list_ex_iff filter_empty_conv)
  then have e: "reset_keys (fib r) = []" by (simp add: reset_keys_def)
  show ?thesis using False
    by (simp add: monitor_and_reset_costs_def Let_def reset_entries_tables e)
qed

lemma fold_self_keys_eq:
  "fst ` set (fold (\<lambda>net. AList.update net self_entry) nets f) = fst ` set f \<union> set nets"
  by (induction nets arbitrary: f) (auto simp: dom_update)

lemma monitor_keeps:
  assumes "distinct (map fst (fib r))" "map_of (fib r) d = Some e" "\<not> resets e"
  shows "d \<in> fst ` set (fib (monitor_and_reset_costs r))"
proof -
  have de: "(d, e) \<in> set (fib r)" using assms(2) by (rule map_of_SomeD)
  have nk: "d \<notin> set (reset_keys (fib r))"
  proof
    assume "d \<in> set (reset_keys (fib r))"
    then obtain e' where e': "(d, e') \<in> set (fib r)" "resets e'"
      by (auto simp: reset_keys_def)
    have "e' = e" using assms(1) de e'(1) by (meson eq_key_imp_eq_value)
    then show False using e'(2) assms(3) by simp
  qed
  have "(d, e) \<in> set (filter (\<lambda>p. fst p \<notin> set (reset_keys (fib r))) (fib r))"
    using de nk by simp
  then have k: "d \<in> fst ` set (filter (\<lambda>p. fst p \<notin> set (reset_keys (fib r))) (fib r))"
    by (rule rev_image_eqI) simp
  show ?thesis
  proof (cases "list_ex (\<lambda>(dest, route_info). resets route_info) (fib r)")
    case True
    then show ?thesis using k by (simp add: monitor_fib fold_self_keys_eq)
  next
    case False
    have "d \<in> fst ` set (fib r)" using de by (rule rev_image_eqI) simp
    then show ?thesis using False by (simp add: monitor_fib)
  qed
qed


lemma decay_topology_lookup:
  assumes "distinct (map fst f)"
  shows "map_of (decay_topology f tt) d =
           (if \<exists>e. (d, e) \<in> set f \<and> decays e then map_option decay_reported (map_of tt d)
            else map_of tt d)"
  using assms
proof (induction f arbitrary: tt)
  case Nil
  then show ?case by simp
next
  case (Cons item f)
  obtain k e where item: "item = (k, e)" by (cases item)
  have dist: "distinct (map fst f)" and knew: "k \<notin> fst ` set f" using Cons.prems item by auto
  define tt' where "tt' = (if decays e then AList.map_entry k decay_reported tt else tt)"
  have step: "map_of (decay_topology (item # f) tt) d =
           (if \<exists>e. (d, e) \<in> set f \<and> decays e then map_option decay_reported (map_of tt' d)
            else map_of tt' d)"
    using Cons.IH[OF dist, of tt'] item by (simp add: tt'_def)
  show ?case
  proof (cases "d = k")
    case True
    have no: "\<not> (\<exists>e'. (d, e') \<in> set f \<and> decays e')"
    proof
      assume "\<exists>e'. (d, e') \<in> set f \<and> decays e'"
      then obtain e' where "(k, e') \<in> set f" using True by blast
      then have "k \<in> fst ` set f" by (rule rev_image_eqI) simp
      then show False using knew by simp
    qed
    have s1: "map_of (decay_topology (item # f) tt) d = map_of tt' d"
      by (simp only: step no if_False)
    have s2: "map_of tt' d = (if decays e then map_option decay_reported (map_of tt d) else map_of tt d)"
      using True by (cases "map_of tt k") (simp_all add: tt'_def map_of_map_entry)
    have s3: "(\<exists>e'. (d, e') \<in> set (item # f) \<and> decays e') = decays e"
      using no True item by auto
    show ?thesis by (simp only: s1 s2 s3)
  next
    case False
    have s2: "map_of tt' d = map_of tt d" using False by (simp add: tt'_def map_of_map_entry)
    have s3: "(\<exists>e'. (d, e') \<in> set (item # f) \<and> decays e') = (\<exists>e'. (d, e') \<in> set f \<and> decays e')"
      using False item by auto
    show ?thesis by (simp only: step s2 s3)
  qed
qed

subsection \<open>The invariant through the other handlers\<close>

lemma router_inv_init: "router_inv (Router_init nm ifs nets)"
  by (simp add: router_inv_def metrics_positive_def reported_nonneg_def history_positive_def
      fib_cost_bound_def Router_init_def)

lemma router_inv_install_networks:
  assumes "router_inv r"
  shows "router_inv (install_networks nets r)"
proof -
  have "fib_cost_bound (install_networks nets r)"
    using assms fib_cost_bound_fold_self[of "fib r" nets]
    by (simp add: router_inv_def fib_cost_bound_def install_networks_fields)
  then show ?thesis using assms
    by (simp add: router_inv_def metrics_positive_def reported_nonneg_def history_positive_def
        install_networks_fields calculate_composite_cost_def)
qed

lemma router_inv_schedule:
  "router_inv (r\<lparr>scheduled_updates := s\<rparr>) = router_inv r"
  by (simp add: router_inv_def metrics_positive_def reported_nonneg_def history_positive_def
        fib_cost_bound_def calculate_composite_cost_def)

lemma router_inv_trigger_update:
  assumes "router_inv r"
  shows "router_inv (trigger_update r d)"
  using assms
  by (cases d) (simp_all add: trigger_update_def router_inv_install_networks router_inv_schedule)

lemma router_inv_prune:
  assumes "router_inv r"
  shows "router_inv (prune_neighbors r now)"
proof -
  have "set (neighbor_table (prune_neighbors r now)) \<subseteq> set (neighbor_table r)"
    by (simp add: prune_neighbors_def fold_delete_filter)
  then have "metrics_positive (prune_neighbors r now)"
    using assms unfolding router_inv_def metrics_positive_def
    by (auto simp: calculate_composite_cost_def prune_neighbors_def)
  then show ?thesis using assms
    by (simp add: router_inv_def reported_nonneg_def history_positive_def fib_cost_bound_def
        prune_neighbors_def)
qed

lemma router_inv_handle_hello:
  assumes "router_inv r" "0 < calculate_composite_cost r (hello_metrics h)"
  shows "router_inv (handle_hello r now nb h)"
proof -
  let ?r1 = "r\<lparr>neighbor_table :=
            AList.update nb \<lparr>last_seen = now, metrics = hello_metrics h\<rparr> (neighbor_table r)\<rparr>"
  have "metrics_positive ?r1"
    using assms set_update_subset[of nb "\<lparr>last_seen = now, metrics = hello_metrics h\<rparr>" "neighbor_table r"]
    unfolding router_inv_def metrics_positive_def
    by (auto simp: calculate_composite_cost_def)
  then have "router_inv ?r1" using assms(1)
    by (simp add: router_inv_def reported_nonneg_def history_positive_def fib_cost_bound_def)
  then show ?thesis unfolding handle_hello_def by (rule router_inv_prune)
qed

lemma decay_topology_nonneg:
  assumes "\<forall>(d, m) \<in> set tt. \<forall>(n, v) \<in> set m. (0::rat) \<le> v"
  shows "\<forall>(d, m) \<in> set (decay_topology f tt). \<forall>(n, v) \<in> set m. 0 \<le> v"
  using assms
proof (induction f arbitrary: tt)
  case Nil
  then show ?case by simp
next
  case (Cons item f)
  obtain k e where item: "item = (k, e)" by (cases item)
  have "\<forall>(d, m) \<in> set (AList.map_entry k decay_reported tt). \<forall>(n, v) \<in> set m. 0 \<le> v"
  proof (clarify)
    fix d m n v
    assume dm: "(d, m) \<in> set (AList.map_entry k decay_reported tt)" and nv: "(n, v) \<in> set m"
    from set_map_entry[OF dm] show "0 \<le> v"
    proof
      assume "(d, m) \<in> set tt"
      then show ?thesis using Cons.prems nv by blast
    next
      assume "\<exists>v0. (k, v0) \<in> set tt \<and> d = k \<and> m = decay_reported v0"
      then obtain v0 where v0: "(k, v0) \<in> set tt" and m: "m = decay_reported v0" by blast
      from nv m obtain v' where v': "(n, v') \<in> set v0" and vv: "v = (if v' > 10 then v' * 0.95 else v')"
        by (auto simp: decay_reported_def)
      have "0 \<le> v'" using Cons.prems v0 v' by blast
      then show ?thesis using vv by simp
    qed
  qed
  then show ?case using Cons.prems item by (cases "decays e") (simp_all add: Cons.IH)
qed

lemma router_inv_apply_cost_decay:
  assumes "router_inv r"
  shows "router_inv (apply_cost_decay r)"
proof -
  have f: "fib (apply_cost_decay r) = map (\<lambda>(dest, route_info). (dest, decay_entry route_info)) (fib r)"
    and t: "topology_table (apply_cost_decay r) = decay_topology (fib r) (topology_table r)"
    and n: "neighbor_table (apply_cost_decay r) = neighbor_table r"
    and w: "metric_weights (apply_cost_decay r) = metric_weights r"
    and h: "cost_history (apply_cost_decay r) = cost_history r"
    by (simp_all add: apply_cost_decay_def Let_def)
  have "fib_cost_bound (apply_cost_decay r)"
    using assms unfolding router_inv_def fib_cost_bound_def f
    by (auto simp: decay_entry_def decays_def)
  moreover have "reported_nonneg (apply_cost_decay r)"
    using assms decay_topology_nonneg[of "topology_table r" "fib r"]
    unfolding router_inv_def reported_nonneg_def t by blast
  moreover have "metrics_positive (apply_cost_decay r)"
    using assms by (simp add: router_inv_def metrics_positive_def n w calculate_composite_cost_def)
  moreover have "history_positive (apply_cost_decay r)"
    using assms by (simp add: router_inv_def history_positive_def h)
  ultimately show ?thesis by (simp add: router_inv_def)
qed

lemma router_inv_monitor:
  assumes "router_inv r"
  shows "router_inv (monitor_and_reset_costs r)"
proof -
  let ?r1 = "reset_entries (fib r) r"
  have "set (fib ?r1) \<subseteq> set (fib r)" "set (topology_table ?r1) \<subseteq> set (topology_table r)"
    by (simp_all add: reset_entries_tables fold_delete_filter)
  then have "fib_cost_bound ?r1" "reported_nonneg ?r1"
    using assms unfolding router_inv_def fib_cost_bound_def reported_nonneg_def by blast+
  moreover have "metrics_positive ?r1" "history_positive ?r1"
    using assms
    by (simp_all add: router_inv_def metrics_positive_def history_positive_def reset_entries_frame
        calculate_composite_cost_def)
  ultimately have i1: "router_inv ?r1" by (simp add: router_inv_def)
  then have "router_inv (?r1\<lparr>cost_history := Map.empty\<rparr>)"
    by (simp add: router_inv_def metrics_positive_def history_positive_def reported_nonneg_def
        fib_cost_bound_def calculate_composite_cost_def)
  then have "router_inv (trigger_update (?r1\<lparr>cost_history := Map.empty\<rparr>) None)"
    by (rule router_inv_trigger_update)
  then show ?thesis using i1 by (simp add: monitor_and_reset_costs_def Let_def)
qed

subsection \<open>The first route to a prefix\<close>

lemma recalculate_dual_install:
  assumes a: "advanced_path_selection r now dest = (r1, Some p)"
    and nofib: "map_of (fib r) dest = None" and ne: "dest \<noteq> []"
  shows "fib (recalculate_dual r now dest) = AList.update dest (installed_route p) (fib r)"
proof -
  have f: "fib r1 = fib r" using same_tables_selection[of r now dest] a by (simp add: same_tables_def)
  show ?thesis using a nofib ne f
    by (simp add: recalculate_dual_def Let_def trigger_update_def log_route_change_def
        installed_route_def)
qed

lemma first_route_installed:
  assumes tt: "map_of (topology_table r) dest = Some [(nb, c)]"
    and nbr: "map_of (neighbor_table r) nb = Some info"
    and ld: "loop_detection r (cost_key dest nb) = None"
    and ch: "cost_history r (cost_key dest nb) = None"
    and nofib: "map_of (fib r) dest = None" and ne: "dest \<noteq> []"
  shows "map_option (\<lambda>e. (next_hop e, total_cost e)) (map_of (fib (recalculate_dual r now dest)) dest) =
           Some (nb, min (ceiling_damping (calculate_composite_cost r (metrics info) + c)) 60)"
proof -
  define tot where "tot = calculate_composite_cost r (metrics info) + c"
  have nl: "\<not> snd (detect_cost_loop r now dest nb tot)"
    using ld by (simp add: detect_cost_loop_def Let_def push_sample_def loop_verdict_def)
  have ch1: "cost_history (fst (detect_cost_loop r now dest nb tot)) (cost_key dest nb) = None"
    using ch by (simp add: detect_cost_loop_def Let_def)
  have sv: "snd (stabilize_cost (fst (detect_cost_loop r now dest nb tot)) dest nb (ceiling_damping tot))
            = min (ceiling_damping tot) 60"
    using ch1 by (simp add: stabilize_cost_def Let_def push_cost_def stabilized_value_def)
  obtain r2 cand where cf: "candidate_for now dest nb c r = (r2, Some cand)"
    and cn: "neighbor cand = nb" and cc: "cand_total_cost cand = min (ceiling_damping tot) 60"
    using candidate_for_known[OF nbr, where c=c and now=now and dest=dest] nl sv
    by (simp add: tot_def)
  have "collect_candidates now dest [(nb, c)] r = (r2, [cand])" using cf by simp
  then have "advanced_path_selection r now dest = (log_path_analysis r2 now dest [cand], Some cand)"
    using tt by (simp add: advanced_path_selection_def)
  from recalculate_dual_install[OF this nofib ne]
  show ?thesis using cn cc by (simp add: update_conv' installed_route_def tot_def)
qed

subsection \<open>Split horizon and the example routers\<close>

lemma split_horizon_drop:
  "map_of (fib r) (dest_network route) = Some e \<Longrightarrow> next_hop e = nb \<Longrightarrow>
   handle_route now nb route r = r"
  by (simp add: handle_route_unfold)

lemma split_horizon_update:
  assumes "map_of (fib r) P = Some e" "next_hop e = nb" "\<forall>route \<in> set routes. dest_network route = P"
  shows "handle_update r now nb routes = r"
proof -
  have "fold (handle_route now nb) routes r = r"
    using assms(3) by (induction routes) (simp_all add: split_horizon_drop[OF _ assms(2)] assms(1))
  then show ?thesis by (simp add: handle_update_def)
qed

lemma R2_start_fields:
  "neighbor_table R2_start = [(''R1'', \<lparr>last_seen = 3, metrics = hello_metrics hello10\<rparr>)]"
  "fib R2_start = []" "topology_table R2_start = []"
  "loop_detection R2_start = Map.empty" "cost_history R2_start = Map.empty"
  "metric_weights R2_start = default_metric_weights"
  "interfaces R2_start = [(''eth0'', Some link12), (''eth1'', Some link23)]"
  by (simp_all add: R2_start_def handle_packet_def handle_hello_def prune_neighbors_def
      dead_neighbors_def Router_init_def)

lemma hello10_cost:
  "metric_weights r = default_metric_weights \<Longrightarrow>
   calculate_composite_cost r (hello_metrics hello10) = 9.9"
  by (simp add: calculate_composite_cost_def default_metric_weights_def hello_metrics_def
      hello10_def get0_def)

lemma first_update_R2:
  assumes "dest \<noteq> []" "0 \<le> c" "c \<le> 40"
  shows "map_option (\<lambda>e. (next_hop e, total_cost e))
           (map_of (fib (handle_packet R2_start now ''R1'' (Update [route_entry_for dest (of_int c)]))) dest)
         = Some (''R1'', 9.9 + of_int c) \<and>
         reported (handle_packet R2_start now ''R1'' (Update [route_entry_for dest (of_int c)])) dest ''R1''
         = Some (of_int c)"
proof -
  let ?route = "route_entry_for dest (of_int c)"
  have td: "total_delay ?route = c" "dest_network ?route = dest"
    using assms(2) by (simp_all add: route_entry_for_def py_int_def)
  have cap: "capped_cost R2_start dest ''R1'' (of_int c) = of_int c"
    by (simp add: capped_cost_def R2_start_fields)
  let ?r = "store_reported R2_start dest ''R1'' (of_int c)"
  have hp: "handle_packet R2_start now ''R1'' (Update [?route]) = recalculate_dual ?r now dest"
    using assms(3)
    by (simp add: handle_packet_def handle_update_def handle_route_unfold td cap R2_start_fields)
  have tt: "map_of (topology_table ?r) dest = Some [(''R1'', of_int c)]"
    by (simp add: map_of_store R2_start_fields)
  have nbr: "map_of (neighbor_table ?r) ''R1'' = Some \<lparr>last_seen = 3, metrics = hello_metrics hello10\<rparr>"
    by (simp add: store_reported_def R2_start_fields)
  have ld: "loop_detection ?r (cost_key dest ''R1'') = None"
    and ch: "cost_history ?r (cost_key dest ''R1'') = None"
    and nofib: "map_of (fib ?r) dest = None"
    and mw: "metric_weights ?r = default_metric_weights"
    by (simp_all add: store_reported_def R2_start_fields)
  have lc: "calculate_composite_cost ?r (hello_metrics hello10) = 9.9" by (rule hello10_cost[OF mw])
  have cd: "min (ceiling_damping (9.9 + of_int c)) 60 = 9.9 + (of_int c :: rat)"
    using assms(2,3) by (simp add: ceiling_damping_def Let_def min_def)
  have "map_option (\<lambda>e. (next_hop e, total_cost e)) (map_of (fib (recalculate_dual ?r now dest)) dest)
        = Some (''R1'', 9.9 + of_int c)"
    using first_route_installed[OF tt nbr ld ch nofib assms(1), of now] lc cd by simp
  moreover have "reported (recalculate_dual ?r now dest) dest ''R1'' = Some (of_int c)"
    by (simp add: reported_def recalculate_dual_frame map_of_store R2_start_fields)
  ultimately show ?thesis by (simp only: hp)
qed

lemma R2_learned_route:
  "map_option (\<lambda>e. (next_hop e, total_cost e)) (map_of (fib R2_learned) ''192.168.1.0'') = Some (''R1'', 9.9)"
  using first_update_R2[of "''192.168.1.0''" 0 4] by (simp add: R2_learned_def)

lemma R2_routes_fields:
  "neighbor_table R2_routes =
        [(''R1'', \<lparr>last_seen = 3, metrics = hello_metrics hello10\<rparr>),
         (''R3'', \<lparr>last_seen = 10, metrics = hello_metrics hello10\<rparr>)]"
  "fib R2_routes =
        [(''192.168.2.0'', self_entry), (''10.0.0.0'', via ''R3'' 40),
         (''10.0.1.0'', via ''R1'' 71), (''10.0.2.0'', via ''R9'' 20)]"
  "topology_table R2_routes =
        [(''10.0.0.0'', [(''R3'', 30), (''R1'', 10)]), (''10.0.1.0'', [(''R1'', 75)]),
         (''10.0.2.0'', [(''R9'', 5)])]"
  "cost_history R2_routes = [cost_key ''10.0.0.0'' ''R1'' \<mapsto> [10, 20]]"
  "loop_detection R2_routes =
        [cost_key ''10.0.0.0'' ''R1'' \<mapsto>
           [(0, 19.9), (5, 20.9), (10, 19.9), (15, 20.9), (20, 19.9), (25, 20.9)]]"
  "metric_weights R2_routes = default_metric_weights"
  "interfaces R2_routes = [(''eth0'', Some link12), (''eth1'', Some link23)]"
  "networks R2_routes = [''192.168.2.0'']"
  by (simp_all add: R2_routes_def Router_init_def)

lemma collect_unknown:
  assumes "\<forall>(nb, c) \<in> set items. map_of (neighbor_table r) nb = None"
  shows "collect_candidates now dest items r = (r, [])"
  using assms by (induction items) (auto simp: candidate_for_unknown)

lemma selection_unknown:
  assumes "\<forall>(nb, c) \<in> set (case map_of (topology_table r) dest of None \<Rightarrow> [] | Some m \<Rightarrow> m).
             map_of (neighbor_table r) nb = None"
  shows "advanced_path_selection r now dest = (r, None)"
  using collect_unknown[OF assms] by (simp add: advanced_path_selection_def)

lemma recalculate_dual_other:
  assumes "d \<noteq> P" "d \<noteq> []"
  shows "map_of (fib (recalculate_dual r now d)) P = map_of (fib r) P"
proof -
  obtain r1 b where a: "advanced_path_selection r now d = (r1, b)"
    by (cases "advanced_path_selection r now d")
  have f: "fib r1 = fib r" using same_tables_selection[of r now d] a by (simp add: same_tables_def)
  from recalculate_dual_result[OF a]
  have "fib (recalculate_dual r now d) = fib r1 \<or>
          (\<exists>p. fib (recalculate_dual r now d) = AList.update d (installed_route p) (fib r1))"
    using assms(2) by auto
  then show ?thesis using f assms(1) by (auto simp: update_conv')
qed

lemma handle_route_split_horizon:
  assumes "map_of (fib r) P = Some e" "next_hop e = N" "dest_network route \<noteq> []"
  shows "map_of (fib (handle_route now N route r)) P = Some e \<and>
         reported (handle_route now N route r) P N = reported r P N"
proof (cases "dest_network route = P")
  case True
  then show ?thesis using assms(1,2) by (simp add: split_horizon_drop[of r route e N])
next
  case False
  have f: "map_of (fib (handle_route now N route r)) P = Some e"
    using assms(1,3) False
    by (simp add: handle_route_unfold recalculate_dual_other) (simp add: store_reported_def)
  have "reported (handle_route now N route r) P N = reported r P N"
    using False by (simp add: reported_handle_route reported_store_other)
  then show ?thesis using f by simp
qed

lemma fold_handle_route_split_horizon:
  assumes "map_of (fib r) P = Some e" "next_hop e = N" "\<forall>route \<in> set routes. dest_network route \<noteq> []"
  shows "map_of (fib (fold (handle_route now N) routes r)) P = Some e \<and>
         reported (fold (handle_route now N) routes r) P N = reported r P N"
  using assms
proof (induction routes arbitrary: r)
  case Nil
  then show ?case by simp
next
  case (Cons route routes)
  have h: "map_of (fib (handle_route now N route r)) P = Some e"
    "reported (handle_route now N route r) P N = reported r P N"
    using handle_route_split_horizon[OF Cons.prems(1,2), of route now] Cons.prems(3) by simp_all
  show ?case using Cons.IH[OF h(1) Cons.prems(2)] Cons.prems(3) h(2) by simp
qed

lemma send_update_member:
  assumes "map_of (fib r) P = Some e" "total_cost e \<le> 70" "(i, Some l) \<in> set (interfaces r)"
  shows "(i, l, Update [route_entry_for P (total_cost e)]) \<in> set (send_update r P)"
  using assms by (force simp: send_update_def send_all_eq)

lemma R2_learned_entry:
  obtains e where "map_of (fib R2_learned) ''192.168.1.0'' = Some e" "next_hop e = ''R1''"
    "total_cost e = 9.9"
  using R2_learned_route by auto

lemma R2_learned_interfaces:
  "interfaces R2_learned = [(''eth0'', Some link12), (''eth1'', Some link23)]"
  by (simp add: R2_learned_def handle_packet_def handle_update_frame R2_start_fields)

lemma R1_start_fields:
  "fib R1_start = [(''192.168.1.0'', self_entry)]" "topology_table R1_start = []"
  "neighbor_table R1_start = []"
  by (simp_all add: R1_start_def trigger_update_def Router_init_def)

lemma reported_capped:
  "capped_cost r dest nb c =
     (case reported r dest nb of
        None \<Rightarrow> c
      | Some old \<Rightarrow> if c > 2 * old then min (old * 1.5) 80 else c)"
  by (simp add: capped_cost_def reported_def mult.commute split: option.splits)

subsection \<open>UPDATE admission\<close>

lemma admission_rule:
  assumes "map_of (neighbor_table r) S \<noteq> None"
    and "\<not> (case map_of (fib r) (dest_network route) of None \<Rightarrow> False
            | Some e \<Rightarrow> next_hop e = S)"
    and "\<not> of_int (total_delay route) > (100::rat)"
  shows "reported (handle_update r now S [route]) (dest_network route) S =
           (case reported r (dest_network route) S of
              None \<Rightarrow> Some (of_int (total_delay route))
            | Some old \<Rightarrow>
                if of_int (total_delay route) > 2 * old then Some (min (old * 1.5) 80)
                else Some (of_int (total_delay route)))"
  using assms
  by (simp add: handle_update_def reported_handle_route reported_store_same reported_capped
      split: option.splits)

lemma handle_update_known:
  "map_of (neighbor_table (handle_update r now nb routes)) S = map_of (neighbor_table r) S"
  by (simp add: handle_update_frame)

lemma rejected_sole_candidate:
  fixes c now :: rat
  assumes tt: "map_of (topology_table r) dest = Some [(nb, c)]"
    and nbr: "map_of (neighbor_table r) nb = Some info"
    and v: "loop_verdict
              (push_sample (case loop_detection r (cost_key dest nb) of None \<Rightarrow> [] | Some h \<Rightarrow> h)
                 (now, calculate_composite_cost r (metrics info) + c))"
  shows "recalculate_dual r now dest =
           r\<lparr>loop_detection := (loop_detection r)(cost_key dest nb \<mapsto>
               push_sample (case loop_detection r (cost_key dest nb) of None \<Rightarrow> [] | Some h \<Rightarrow> h)
                 (now, calculate_composite_cost r (metrics info) + c))\<rparr>"
proof -
  let ?tot = "calculate_composite_cost r (metrics info) + c"
  let ?r1 = "r\<lparr>loop_detection := (loop_detection r)(cost_key dest nb \<mapsto>
               push_sample (case loop_detection r (cost_key dest nb) of None \<Rightarrow> [] | Some h \<Rightarrow> h)
                 (now, ?tot))\<rparr>"
  have d: "detect_cost_loop r now dest nb ?tot = (?r1, True)"
    using v by (simp add: detect_cost_loop_def Let_def)
  have "candidate_for now dest nb c r = (?r1, None)"
    unfolding candidate_for_known[OF nbr, where c=c and now=now and dest=dest] d by simp
  then have "collect_candidates now dest [(nb, c)] r = (?r1, [])" by simp
  then have "advanced_path_selection r now dest = (?r1, None)"
    using tt by (simp add: advanced_path_selection_def)
  then show ?thesis by (simp add: recalculate_dual_def)
qed

lemma ceiling_drop:
  assumes "of_int (total_delay route) > (100::rat)"
  shows "handle_update r now S [route] = r"
  using assms by (simp add: handle_update_def handle_route_unfold)

lemma R2_reset_fields:
  "neighbor_table R2_reset = [(''R1'', \<lparr>last_seen = 30, metrics = hello_metrics hello10\<rparr>)]"
  "fib R2_reset = [(''192.168.2.0'', self_entry)]" "topology_table R2_reset = []"
  "loop_detection R2_reset =
     [cost_key ''10.0.0.0'' ''R1'' \<mapsto> [(10, 58), (15, 62), (20, 66), (25, 70)]]"
  "metric_weights R2_reset = default_metric_weights"
  by (simp_all add: R2_reset_def Router_init_def)

lemma route_entry_fields:
  "dest_network (route_entry_for dest cost) = dest"
  "total_delay (route_entry_for dest cost) = py_int cost"
  by (simp_all add: route_entry_for_def)

lemma py_int_numeral: "py_int 10 = 10" "py_int 25 = 25" "py_int 90 = 90"
  by (simp_all add: py_int_def)

lemma R2_report1_eq:
  "R2_report1 =
     R2_reset\<lparr>topology_table := [(''10.0.0.0'', [(''R1'', 10)])],
              loop_detection :=
                [cost_key ''10.0.0.0'' ''R1'' \<mapsto>
                   [(10, 58), (15, 62), (20, 66), (25, 70), (31, 19.9)]]\<rparr>"
proof -
  let ?s = "store_reported R2_reset ''10.0.0.0'' ''R1'' 10"
  have s: "?s = R2_reset\<lparr>topology_table := [(''10.0.0.0'', [(''R1'', 10)])]\<rparr>"
    by (simp add: store_reported_def R2_reset_fields)
  have h: "R2_report1 = recalculate_dual ?s 31 ''10.0.0.0''"
    by (simp add: R2_report1_def handle_update_def handle_route_unfold route_entry_fields
        py_int_numeral R2_reset_fields capped_cost_def)
  have tt: "map_of (topology_table ?s) ''10.0.0.0'' = Some [(''R1'', 10)]"
    and nbr: "map_of (neighbor_table ?s) ''R1'' = Some \<lparr>last_seen = 30, metrics = hello_metrics hello10\<rparr>"
    and ld: "loop_detection ?s (cost_key ''10.0.0.0'' ''R1'') = Some [(10, 58), (15, 62), (20, 66), (25, 70)]"
    and mw: "metric_weights ?s = default_metric_weights"
    by (simp_all add: s R2_reset_fields)
  have lc: "calculate_composite_cost ?s (hello_metrics hello10) + 10 = 19.9"
    by (simp add: hello10_cost[OF mw])
  have v: "loop_verdict (push_sample [(10, 58), (15, 62), (20, 66), (25, 70)] (31, 19.9))"
    by (simp add: loop_verdict_def push_sample_def last_n_def)
  have "recalculate_dual ?s 31 ''10.0.0.0'' =
          ?s\<lparr>loop_detection := (loop_detection ?s)(cost_key ''10.0.0.0'' ''R1'' \<mapsto>
               push_sample [(10, 58), (15, 62), (20, 66), (25, 70)] (31, 19.9))\<rparr>"
    using rejected_sole_candidate[OF tt nbr, of 31] v by (simp add: ld lc)
  then show ?thesis unfolding h
    by (simp add: s R2_reset_fields push_sample_def)
qed

lemma R2_reset_report:
  fixes old now :: rat and c :: int and hist :: "(rat \<times> rat) list"
  defines "r \<equiv> R2_reset\<lparr>topology_table := [(''10.0.0.0'', [(''R1'', old)])],
                         loop_detection := [cost_key ''10.0.0.0'' ''R1'' \<mapsto> hist]\<rparr>"
  defines "capped \<equiv> (if of_int c > old * 2.0 then min (old * 1.5) 80 else of_int c)"
  assumes c: "0 \<le> c" "c \<le> 100"
    and v: "loop_verdict (push_sample hist (now, 9.9 + capped))"
  shows "handle_update r now ''R1'' [route_entry_for ''10.0.0.0'' (of_int c)] =
           R2_reset\<lparr>topology_table := [(''10.0.0.0'', [(''R1'', capped)])],
                    loop_detection :=
                      [cost_key ''10.0.0.0'' ''R1'' \<mapsto> push_sample hist (now, 9.9 + capped)]\<rparr>"
proof -
  have rf: "neighbor_table r = [(''R1'', \<lparr>last_seen = 30, metrics = hello_metrics hello10\<rparr>)]"
    "fib r = [(''192.168.2.0'', self_entry)]" "topology_table r = [(''10.0.0.0'', [(''R1'', old)])]"
    "loop_detection r = [cost_key ''10.0.0.0'' ''R1'' \<mapsto> hist]"
    "metric_weights r = default_metric_weights"
    by (simp_all add: r_def R2_reset_fields)
  have cap: "capped_cost r ''10.0.0.0'' ''R1'' (of_int c) = capped"
    by (simp add: capped_cost_def rf capped_def)
  let ?s = "store_reported r ''10.0.0.0'' ''R1'' capped"
  have s: "?s = r\<lparr>topology_table := [(''10.0.0.0'', [(''R1'', capped)])]\<rparr>"
    by (simp add: store_reported_def rf)
  have pi: "py_int (of_int c) = c" using c(1) by (simp add: py_int_def)
  have h: "handle_update r now ''R1'' [route_entry_for ''10.0.0.0'' (of_int c)] =
             recalculate_dual ?s now ''10.0.0.0''"
    using c(2)
    by (simp add: handle_update_def handle_route_unfold route_entry_fields pi rf cap)
  have tt: "map_of (topology_table ?s) ''10.0.0.0'' = Some [(''R1'', capped)]"
    and nbr: "map_of (neighbor_table ?s) ''R1'' = Some \<lparr>last_seen = 30, metrics = hello_metrics hello10\<rparr>"
    and ld: "loop_detection ?s (cost_key ''10.0.0.0'' ''R1'') = Some hist"
    and mw: "metric_weights ?s = default_metric_weights"
    by (simp_all add: s rf)
  have lc: "calculate_composite_cost ?s (hello_metrics hello10) + capped = 9.9 + capped"
    by (simp add: hello10_cost[OF mw])
  have "recalculate_dual ?s now ''10.0.0.0'' =
          ?s\<lparr>loop_detection := (loop_detection ?s)(cost_key ''10.0.0.0'' ''R1'' \<mapsto>
               push_sample hist (now, 9.9 + capped))\<rparr>"
    using rejected_sole_candidate[OF tt nbr, of now] v by (simp add: ld lc)
  then have e: "recalculate_dual ?s now ''10.0.0.0'' =
          r\<lparr>topology_table := [(''10.0.0.0'', [(''R1'', capped)])],
            loop_detection := [cost_key ''10.0.0.0'' ''R1'' \<mapsto>
               push_sample hist (now, 9.9 + capped)]\<rparr>"
    by (simp add: s rf)
  show ?thesis unfolding h e by (simp add: r_def)
qed

lemma R2_report2_eq:
  "R2_report2 =
     R2_reset\<lparr>topology_table := [(''10.0.0.0'', [(''R1'', 15)])],
              loop_detection :=
                [cost_key ''10.0.0.0'' ''R1'' \<mapsto>
                   [(10, 58), (15, 62), (20, 66), (25, 70), (31, 19.9), (32, 24.9)]]\<rparr>"
proof -
  have v: "loop_verdict (push_sample [(10, 58), (15, 62), (20, 66), (25, 70), (31, 19.9)]
             (32, 9.9 + (if of_int 25 > 10 * 2.0 then min (10 * 1.5) 80 else of_int 25)))"
    by (simp add: loop_verdict_def push_sample_def last_n_def)
  show ?thesis
    unfolding R2_report2_def R2_report1_eq
    using R2_reset_report[of 25, OF _ _ v] by (simp add: push_sample_def)
qed

lemma R2_report3_eq:
  "R2_report3 =
     R2_reset\<lparr>topology_table := [(''10.0.0.0'', [(''R1'', 22.5)])],
              loop_detection :=
                [cost_key ''10.0.0.0'' ''R1'' \<mapsto>
                   [(10, 58), (15, 62), (20, 66), (25, 70), (31, 19.9), (32, 24.9), (33, 32.4)]]\<rparr>"
proof -
  have v: "loop_verdict
             (push_sample [(10, 58), (15, 62), (20, 66), (25, 70), (31, 19.9), (32, 24.9)]
               (33, 9.9 + (if of_int 90 > 15 * 2.0 then min (15 * 1.5) 80 else of_int 90)))"
    by (simp add: loop_verdict_def push_sample_def last_n_def)
  show ?thesis
    unfolding R2_report3_def R2_report2_eq
    using R2_reset_report[of 90, OF _ _ v] by (simp add: push_sample_def)
qed

lemma R2_reports:
  "map_of (neighbor_table R2_reset) ''R1'' \<noteq> None"
  "map_of (fib R2_reset) ''10.0.0.0'' = None" "reported R2_reset ''10.0.0.0'' ''R1'' = None"
  "map_of (fib R2_report1) ''10.0.0.0'' = None" "reported R2_report1 ''10.0.0.0'' ''R1'' = Some 10"
  "map_of (fib R2_report2) ''10.0.0.0'' = None" "reported R2_report2 ''10.0.0.0'' ''R1'' = Some 15"
  "reported R2_report3 ''10.0.0.0'' ''R1'' = Some 22.5"
  by (simp_all add: R2_report1_eq R2_report2_eq R2_report3_eq R2_reset_fields reported_def)

subsection \<open>Link metrics from HELLOs and from the mutator\<close>

lemma weighted_sum_pos:
  fixes x1 x2 x3 x4 :: rat
  assumes "0 < x1" "0 \<le> x2" "0 \<le> x3" "0 \<le> x4"
  shows "0 < 0.4 * x1 + 0.2 * x2 + 0.25 * x3 * 10 + 0.15 * x4"
  using assms by (intro add_pos_nonneg mult_pos_pos mult_nonneg_nonneg) simp_all

lemma hello_metrics_lookup:
  "hello_metrics h ''delay'' = Some (hello_delay h)"
  "hello_metrics h ''jitter'' = Some (hello_jitter h)"
  "hello_metrics h ''packet_loss'' = Some (hello_packet_loss h)"
  "hello_metrics h ''congestion'' = Some (hello_congestion h)"
  by (simp_all add: hello_metrics_def)

lemma hello_cost_eq:
  assumes "metric_weights r = default_metric_weights"
  shows "calculate_composite_cost r (hello_metrics h) =
           0.4 * hello_delay h + 0.2 * hello_jitter h + 0.25 * hello_packet_loss h * 10 +
           0.15 * hello_congestion h"
  unfolding calculate_composite_cost_def get0_def hello_metrics_lookup assms
    default_metric_weights_def by simp

lemma sent_hello_cost:
  assumes "metric_weights r = default_metric_weights"
  shows "0 < calculate_composite_cost r (hello_metrics (sent_hello d j l c s))"
proof -
  have "(0::int) < max 5 (min 120 d)" "(0::int) \<le> max 1 (min 20 j)" "(0::int) \<le> max 0 (min 50 c)"
    by (simp_all add: max_def)
  then have "(0::rat) < hello_delay (sent_hello d j l c s)"
    "(0::rat) \<le> hello_jitter (sent_hello d j l c s)"
    "(0::rat) \<le> hello_congestion (sent_hello d j l c s)"
    unfolding sent_hello_def by (simp_all only: ADUP_Hello.simps of_int_0_less_iff of_int_0_le_iff)
  moreover have "(0::rat) \<le> hello_packet_loss (sent_hello d j l c s)"
    by (simp add: sent_hello_def max_def)
  ultimately show ?thesis
    unfolding hello_cost_eq[OF assms] by (intro weighted_sum_pos)
qed

lemma varied_metrics_cost:
  assumes "metric_weights r = default_metric_weights"
  shows "0 < calculate_composite_cost r (m ++ varied_metrics dr)"
proof -
  define x1 where "x1 = max 1 (min 80 (15 * \<bar>time_factor dr\<bar> * random_factor dr))"
  define x2 where "x2 = max 0.1 (min 15 (8 * random_factor dr))"
  define x3 where "x3 = max 0.01 (min 8.0 (0.005 * 100 * \<bar>time_factor dr\<bar> * random_factor dr *
                         congestion_factor dr * spike_factor dr))"
  define x4 where "x4 = max 0 (min 50 (0.08 * 100 * \<bar>time_factor dr\<bar> * random_factor dr))"
  have b: "0 < x1" "0 \<le> x2" "0 \<le> x3" "0 \<le> x4"
    by (simp_all add: x1_def x2_def x3_def x4_def)
  have v: "varied_metrics dr ''delay'' = Some x1" "varied_metrics dr ''jitter'' = Some x2"
    "varied_metrics dr ''packet_loss'' = Some x3" "varied_metrics dr ''congestion'' = Some x4"
    unfolding varied_metrics_def Let_def x1_def x2_def x3_def x4_def by simp_all
  have g: "get0 (m ++ varied_metrics dr) ''delay'' = x1"
    "get0 (m ++ varied_metrics dr) ''jitter'' = x2"
    "get0 (m ++ varied_metrics dr) ''packet_loss'' = x3"
    "get0 (m ++ varied_metrics dr) ''congestion'' = x4"
    by (simp_all add: get0_def v)
  have "calculate_composite_cost r (m ++ varied_metrics dr) =
          0.4 * x1 + 0.2 * x2 + 0.25 * x3 * 10 + 0.15 * x4"
    unfolding calculate_composite_cost_def g assms default_metric_weights_def by simp
  then show ?thesis using weighted_sum_pos[OF b] by simp
qed

lemma router_inv_update_dynamic_metrics:
  assumes "router_inv r" "metric_weights r = default_metric_weights"
  shows "router_inv (update_dynamic_metrics r drawn)"
proof -
  have w: "metric_weights (update_dynamic_metrics r drawn) = default_metric_weights"
    using assms(2) by (simp add: update_dynamic_metrics_def)
  have "metrics_positive (update_dynamic_metrics r drawn)"
    unfolding metrics_positive_def
  proof (clarify)
    fix nb info
    assume "(nb, info) \<in> set (neighbor_table (update_dynamic_metrics r drawn))"
    then obtain info0 :: neighbor_info
      where "metrics info = metrics info0 ++ varied_metrics (drawn nb)"
      by (auto simp: update_dynamic_metrics_def)
    then show "0 < calculate_composite_cost (update_dynamic_metrics r drawn) (metrics info)"
      using varied_metrics_cost[OF w] by simp
  qed
  then show ?thesis using assms(1)
    by (simp add: router_inv_def reported_nonneg_def history_positive_def fib_cost_bound_def
        update_dynamic_metrics_def)
qed

section \<open>The claims\<close>


text \<open>
  \<^bold>\<open>C1\<close> (split horizon), as claimed: a router \<open>R\<close> whose FIB entry for \<open>P\<close> has next hop \<open>N\<close>
  never emits a route entry for \<open>P\<close> toward \<open>N\<close>, so that \<open>N\<close> never records \<open>R\<close> for \<open>P\<close>.
  \<^verbatim>\<open>send_update\<close> broadcasts on every interface with a link. R2 has learned
  \<^verbatim>\<open>192.168.1.0\<close> from R1: its FIB entry has next hop R1, and its UPDATE for that prefix goes
  out on \<^verbatim>\<open>eth0\<close>, whose link delivers to R1; R1 then records R2 in its topology table for
  its own network.
\<close>

theorem split_horizon_egress_counterexample:
  "map_option next_hop (map_of (fib R2_learned) ''192.168.1.0'') = Some ''R1'' \<and>
   send_update R2_learned ''192.168.1.0'' =
     [(''eth0'', link12, Update [route_entry_for ''192.168.1.0'' 9.9]),
      (''eth1'', link23, Update [route_entry_for ''192.168.1.0'' 9.9])] \<and>
   link_receiver link12 ''R2'' = ''R1'' \<and>
   reported R1_heard ''192.168.1.0'' ''R2'' = Some 9"
proof -
  obtain e where e: "map_of (fib R2_learned) ''192.168.1.0'' = Some e" "next_hop e = ''R1''"
    "total_cost e = 9.9" by (rule R2_learned_entry)
  have s: "send_update R2_learned ''192.168.1.0'' =
     [(''eth0'', link12, Update [route_entry_for ''192.168.1.0'' 9.9]),
      (''eth1'', link23, Update [route_entry_for ''192.168.1.0'' 9.9])]"
    by (simp add: send_update_def R2_learned_interfaces e(1,3))
  have l: "link_receiver link12 ''R2'' = ''R1''" by (simp add: link_receiver_def link12_def)
  let ?r = "handle_packet R1_start 5 ''R2'' (Hello hello10)"
  have rf: "fib ?r = [(''192.168.1.0'', self_entry)]" "topology_table ?r = []"
    "map_of (neighbor_table ?r) ''R2'' \<noteq> None"
    by (simp_all add: handle_packet_def handle_hello_def prune_neighbors_def dead_neighbors_def
        R1_start_fields)
  have td: "total_delay (route_entry_for ''192.168.1.0'' 9.9) = 9"
    "dest_network (route_entry_for ''192.168.1.0'' 9.9) = ''192.168.1.0''"
    by (simp_all add: route_entry_for_def py_int_def floor_eq_iff)
  from rf(3) obtain y where y: "map_of (neighbor_table ?r) ''R2'' = Some y" by auto
  have "reported R1_heard ''192.168.1.0'' ''R2'' = Some 9"
    by (simp add: y R1_heard_def handle_packet_def[of ?r] handle_update_def reported_handle_route
        td rf(1) self_entry_def reported_store_same capped_cost_def rf(2))
  moreover have "map_option next_hop (map_of (fib R2_learned) ''192.168.1.0'') = Some ''R1''"
    by (simp add: e(1,2))
  ultimately show ?thesis using s l by simp
qed

text \<open>
  \<^bold>\<open>C1\<close>, amended. Split horizon is applied on ingress. While the FIB entry of \<open>R\<close> for \<open>P\<close>
  has next hop \<open>N\<close>, every route entry for \<open>P\<close> in an UPDATE from \<open>N\<close> is dropped: an
  UPDATE from \<open>N\<close> whose entries are all for \<open>P\<close> leaves the state of \<open>R\<close> unchanged, and no
  UPDATE from \<open>N\<close> changes \<open>topology_table[P][N]\<close> or the FIB entry of \<open>P\<close>. On egress,
  when the FIB cost of \<open>P\<close> is at most 70, the UPDATE for \<open>P\<close> is put on every interface
  with a link, the one toward \<open>N\<close> included.
\<close>

theorem split_horizon_ingress:
  assumes "map_of (fib r) P = Some e" "next_hop e = N"
  shows "((\<forall>route \<in> set routes. dest_network route = P) \<longrightarrow> handle_update r now N routes = r) \<and>
         ((\<forall>route \<in> set routes. dest_network route \<noteq> []) \<longrightarrow>
            reported (handle_update r now N routes) P N = reported r P N \<and>
            map_of (fib (handle_update r now N routes)) P = Some e) \<and>
         (total_cost e \<le> 70 \<longrightarrow>
            (\<forall>i l. (i, Some l) \<in> set (interfaces r) \<longrightarrow>
               (i, l, Update [route_entry_for P (total_cost e)]) \<in> set (send_update r P)))"
proof (intro conjI impI allI)
  show "handle_update r now N routes = r" if "\<forall>route \<in> set routes. dest_network route = P"
    using that by (rule split_horizon_update[OF assms])
  show "reported (handle_update r now N routes) P N = reported r P N"
    if "\<forall>route \<in> set routes. dest_network route \<noteq> []"
    using fold_handle_route_split_horizon[OF assms that, of now] by (simp add: handle_update_def)
  show "map_of (fib (handle_update r now N routes)) P = Some e"
    if "\<forall>route \<in> set routes. dest_network route \<noteq> []"
    using fold_handle_route_split_horizon[OF assms that, of now] assms(1)
    by (simp add: handle_update_def)
  show "(i, l, Update [route_entry_for P (total_cost e)]) \<in> set (send_update r P)"
    if "total_cost e \<le> 70" "(i, Some l) \<in> set (interfaces r)" for i l
    using send_update_member[OF assms(1) that] .
qed

theorem split_horizon_ingress_witness:
  "map_option next_hop (map_of (fib R2_learned) ''192.168.1.0'') = Some ''R1'' \<and>
   handle_update R2_learned 5 ''R1'' [route_entry_for ''192.168.1.0'' 0] = R2_learned \<and>
   reported (handle_update R2_learned 5 ''R1''
               [route_entry_for ''192.168.1.0'' 0, route_entry_for ''10.0.0.0'' 7])
     ''192.168.1.0'' ''R1'' = reported R2_learned ''192.168.1.0'' ''R1'' \<and>
   (''eth0'', link12, Update [route_entry_for ''192.168.1.0'' 9.9])
     \<in> set (send_update R2_learned ''192.168.1.0'')"
proof -
  obtain e where e: "map_of (fib R2_learned) ''192.168.1.0'' = Some e" "next_hop e = ''R1''"
    "total_cost e = 9.9" by (rule R2_learned_entry)
  have a: "\<forall>route \<in> set [route_entry_for ''192.168.1.0'' 0]. dest_network route = ''192.168.1.0''"
    and b: "\<forall>route \<in> set [route_entry_for ''192.168.1.0'' 0, route_entry_for ''10.0.0.0'' 7].
              dest_network route \<noteq> []"
    and c: "total_cost e \<le> 70" "(''eth0'', Some link12) \<in> set (interfaces R2_learned)"
    using e(3) by (simp_all add: route_entry_for_def R2_learned_interfaces)
  have 1: "handle_update R2_learned 5 ''R1'' [route_entry_for ''192.168.1.0'' 0] = R2_learned"
    using split_horizon_ingress[OF e(1,2), of "[route_entry_for ''192.168.1.0'' 0]" 5] a by blast
  have 2: "reported (handle_update R2_learned 5 ''R1''
               [route_entry_for ''192.168.1.0'' 0, route_entry_for ''10.0.0.0'' 7])
     ''192.168.1.0'' ''R1'' = reported R2_learned ''192.168.1.0'' ''R1''"
    using split_horizon_ingress[OF e(1,2),
        of "[route_entry_for ''192.168.1.0'' 0, route_entry_for ''10.0.0.0'' 7]" 5] b by blast
  have 3: "(''eth0'', link12, Update [route_entry_for ''192.168.1.0'' (total_cost e)])
     \<in> set (send_update R2_learned ''192.168.1.0'')"
    using split_horizon_ingress[OF e(1,2), of "[]" 5] c by blast
  have 4: "map_option next_hop (map_of (fib R2_learned) ''192.168.1.0'') = Some ''R1''"
    by (simp add: e(1,2))
  show ?thesis using 1 2 3 4 by (simp add: e(3))
qed

text \<open>
  \<^bold>\<open>C2\<close> (composite cost). For a neighbor-metrics dict with the fields \<^verbatim>\<open>delay\<close>,
  \<^verbatim>\<open>jitter\<close>, \<^verbatim>\<open>packet_loss\<close> and \<^verbatim>\<open>congestion\<close>, the composite link cost computed
  with the weights set by \<^verbatim>\<open>Router.__init__\<close> is
  \<open>0.40 * delay + 0.20 * jitter + 0.25 * (packet_loss * 10) + 0.15 * congestion\<close>.
\<close>

theorem composite_cost_formula:
  assumes "m ''delay'' = Some d" "m ''jitter'' = Some j" "m ''packet_loss'' = Some pl"
    and "m ''congestion'' = Some c" and "metric_weights r = default_metric_weights"
  shows "calculate_composite_cost r m = 0.40 * d + 0.20 * j + 0.25 * (pl * 10) + 0.15 * c"
  using assms
  by (simp add: calculate_composite_cost_def get0_def default_metric_weights_def)

theorem composite_cost_formula_witness:
  "hello_metrics hello10 ''delay'' = Some 10 \<and> hello_metrics hello10 ''jitter'' = Some 2 \<and>
   hello_metrics hello10 ''packet_loss'' = Some 1 \<and> hello_metrics hello10 ''congestion'' = Some 20 \<and>
   metric_weights R2_routes = default_metric_weights \<and>
   calculate_composite_cost R2_routes (hello_metrics hello10) =
     0.40 * 10 + 0.20 * 2 + 0.25 * (1 * 10) + 0.15 * 20"
  using composite_cost_formula[of "hello_metrics hello10" 10 2 1 20 R2_routes]
  by (simp add: hello_metrics_def hello10_def R2_routes_fields)

text \<open>
  \<^bold>\<open>C3\<close> (UPDATE admission), as claimed: after \<open>S\<close> reports the costs 10, 25 and 90 for a
  prefix \<open>X\<close>, \<open>topology_table[X][S]\<close> is 37.5. R2 knows R1, has no route and no reported
  cost for \<^verbatim>\<open>10.0.0.0\<close>, and receives the three reports from R1. Each of them passes the
  split-horizon check (the FIB has no entry for the prefix before any of them) and none is
  above 100, yet the value stored after the third is 22.5: the report of 25 exceeds twice
  the stored 10 and is capped to 15, and the report of 90 is capped to 22.5.
\<close>

theorem update_admission_counterexample:
  "map_of (neighbor_table R2_reset) ''R1'' \<noteq> None \<and>
   reported R2_reset ''10.0.0.0'' ''R1'' = None \<and>
   map_of (fib R2_reset) ''10.0.0.0'' = None \<and>
   map_of (fib R2_report1) ''10.0.0.0'' = None \<and>
   map_of (fib R2_report2) ''10.0.0.0'' = None \<and>
   reported R2_report3 ''10.0.0.0'' ''R1'' = Some 22.5 \<and>
   reported R2_report3 ''10.0.0.0'' ''R1'' \<noteq> Some 37.5"
  by (simp add: R2_reports)

text \<open>
  \<^bold>\<open>C3\<close>, amended. For a route entry \<open>(prefix, reported_cost)\<close> from a known neighbor \<open>S\<close>
  that passes the split-horizon check: if \<open>reported_cost > 100\<close> the entry is dropped and
  the router is left as it was, \<open>topology_table[prefix][S]\<close> included; otherwise, if a
  previous value \<open>old\<close> exists and \<open>reported_cost > 2 * old\<close>, the value stored is
  \<open>min(old * 1.5, 80)\<close>; otherwise \<open>reported_cost\<close> itself is stored. In particular a
  report of 25 over a stored 10 stores 15 (the cap fires, \<open>25 > 2 * 10\<close>), and a report of
  90 over a stored 15 stores 22.5; so when \<open>S\<close> had reported no cost for \<open>X\<close> and reports
  10, then 25, then 90, each of the three entries passing the split-horizon check,
  \<open>topology_table[X][S]\<close> is 10, then 15, then 22.5.
\<close>

theorem update_admission:
  fixes now t2 t3 :: rat
  assumes "map_of (neighbor_table r) S \<noteq> None"
    and "\<not> (case map_of (fib r) (dest_network route) of None \<Rightarrow> False
            | Some e \<Rightarrow> next_hop e = S)"
  shows "(of_int (total_delay route) > (100::rat) \<longrightarrow> handle_update r now S [route] = r) \<and>
         (\<not> of_int (total_delay route) > (100::rat) \<longrightarrow>
            reported (handle_update r now S [route]) (dest_network route) S =
              (case reported r (dest_network route) S of
                 None \<Rightarrow> Some (of_int (total_delay route))
               | Some old \<Rightarrow>
                   if of_int (total_delay route) > 2 * old then Some (min (old * 1.5) 80)
                   else Some (of_int (total_delay route)))) \<and>
         (reported r (dest_network route) S = Some 10 \<and> total_delay route = 25 \<longrightarrow>
            reported (handle_update r now S [route]) (dest_network route) S = Some 15) \<and>
         (reported r (dest_network route) S = Some 15 \<and> total_delay route = 90 \<longrightarrow>
            reported (handle_update r now S [route]) (dest_network route) S = Some 22.5) \<and>
         (reported r (dest_network route) S = None \<and> total_delay route = 10 \<and>
          dest_network e2 = dest_network route \<and> total_delay e2 = 25 \<and>
          dest_network e3 = dest_network route \<and> total_delay e3 = 90 \<and>
          \<not> (case map_of (fib (handle_update r now S [route])) (dest_network route) of
               None \<Rightarrow> False | Some e \<Rightarrow> next_hop e = S) \<and>
          \<not> (case map_of (fib (handle_update (handle_update r now S [route]) t2 S [e2]))
                    (dest_network route) of
               None \<Rightarrow> False | Some e \<Rightarrow> next_hop e = S) \<longrightarrow>
            reported (handle_update r now S [route]) (dest_network route) S = Some 10 \<and>
            reported (handle_update (handle_update r now S [route]) t2 S [e2])
              (dest_network route) S = Some 15 \<and>
            reported (handle_update (handle_update (handle_update r now S [route]) t2 S [e2])
                        t3 S [e3])
              (dest_network route) S = Some 22.5)"
proof (intro conjI impI)
  assume "of_int (total_delay route) > (100::rat)"
  then show "handle_update r now S [route] = r" by (rule ceiling_drop)
next
  assume "\<not> of_int (total_delay route) > (100::rat)"
  then show "reported (handle_update r now S [route]) (dest_network route) S =
              (case reported r (dest_network route) S of
                 None \<Rightarrow> Some (of_int (total_delay route))
               | Some old \<Rightarrow>
                   if of_int (total_delay route) > 2 * old then Some (min (old * 1.5) 80)
                   else Some (of_int (total_delay route)))"
    using admission_rule[OF assms] by simp
next
  assume "reported r (dest_network route) S = Some 10 \<and> total_delay route = 25"
  then show "reported (handle_update r now S [route]) (dest_network route) S = Some 15"
    using admission_rule[OF assms, of now] by simp
next
  assume "reported r (dest_network route) S = Some 15 \<and> total_delay route = 90"
  then show "reported (handle_update r now S [route]) (dest_network route) S = Some 22.5"
    using admission_rule[OF assms, of now] by simp
next
  let ?X = "dest_network route"
  let ?r1 = "handle_update r now S [route]"
  let ?r2 = "handle_update ?r1 t2 S [e2]"
  assume a: "reported r ?X S = None \<and> total_delay route = 10 \<and>
          dest_network e2 = ?X \<and> total_delay e2 = 25 \<and>
          dest_network e3 = ?X \<and> total_delay e3 = 90 \<and>
          \<not> (case map_of (fib ?r1) ?X of None \<Rightarrow> False | Some e \<Rightarrow> next_hop e = S) \<and>
          \<not> (case map_of (fib ?r2) ?X of None \<Rightarrow> False | Some e \<Rightarrow> next_hop e = S)"
  have k1: "map_of (neighbor_table ?r1) S \<noteq> None"
    and k2: "map_of (neighbor_table ?r2) S \<noteq> None"
    using assms(1) by (simp_all add: handle_update_known)
  have s1: "\<not> (case map_of (fib ?r1) (dest_network e2) of None \<Rightarrow> False
                | Some e \<Rightarrow> next_hop e = S)"
    and s2: "\<not> (case map_of (fib ?r2) (dest_network e3) of None \<Rightarrow> False
                | Some e \<Rightarrow> next_hop e = S)"
    using a by simp_all
  have 1: "reported ?r1 ?X S = Some 10"
    using admission_rule[OF assms, of now] a by simp
  have 2: "reported ?r2 ?X S = Some 15"
    using admission_rule[OF k1 s1, of t2] a 1 by simp
  have 3: "reported (handle_update ?r2 t3 S [e3]) ?X S = Some 22.5"
    using admission_rule[OF k2 s2, of t3] a 2 by simp
  show "reported ?r1 ?X S = Some 10" by (rule 1)
  show "reported ?r2 ?X S = Some 15" by (rule 2)
  show "reported (handle_update ?r2 t3 S [e3]) ?X S = Some 22.5" by (rule 3)
qed

theorem update_admission_witness:
  "map_of (neighbor_table R2_reset) ''R1'' \<noteq> None \<and>
   reported R2_reset ''10.0.0.0'' ''R1'' = None \<and>
   map_of (fib R2_reset) ''10.0.0.0'' = None \<and>
   map_of (fib R2_report1) ''10.0.0.0'' = None \<and>
   map_of (fib R2_report2) ''10.0.0.0'' = None \<and>
   reported R2_report1 ''10.0.0.0'' ''R1'' = Some 10 \<and>
   reported R2_report2 ''10.0.0.0'' ''R1'' = Some 15 \<and>
   reported R2_report3 ''10.0.0.0'' ''R1'' = Some 22.5 \<and>
   map_of (neighbor_table R2_routes) ''R1'' \<noteq> None \<and>
   map_option next_hop (map_of (fib R2_routes) ''10.0.0.0'') = Some ''R3'' \<and>
   reported R2_routes ''10.0.0.0'' ''R1'' = Some 10 \<and>
   reported (handle_update R2_routes 30 ''R1'' [route_entry_for ''10.0.0.0'' 25]) ''10.0.0.0'' ''R1''
     = Some 15 \<and>
   handle_update R2_routes 30 ''R1'' [route_entry_for ''10.0.0.0'' 101] = R2_routes \<and>
   reported (handle_update R2_routes 30 ''R1'' [route_entry_for ''10.0.0.0'' 18]) ''10.0.0.0'' ''R1''
     = Some 18"
proof -
  have td: "dest_network (route_entry_for ''10.0.0.0'' c) = ''10.0.0.0''" for c
    by (simp add: route_entry_for_def)
  have tv: "total_delay (route_entry_for ''10.0.0.0'' 25) = 25"
    "total_delay (route_entry_for ''10.0.0.0'' 101) = 101"
    "total_delay (route_entry_for ''10.0.0.0'' 18) = 18"
    "total_delay (route_entry_for ''10.0.0.0'' 10) = 10"
    "total_delay (route_entry_for ''10.0.0.0'' 90) = 90"
    by (simp_all add: route_entry_for_def py_int_def)
  have k0: "map_of (neighbor_table R2_reset) ''R1'' \<noteq> None"
    and n0: "reported R2_reset ''10.0.0.0'' ''R1'' = None"
    and f0: "map_of (fib R2_reset) ''10.0.0.0'' = None"
    and f1: "map_of (fib R2_report1) ''10.0.0.0'' = None"
    and f2: "map_of (fib R2_report2) ''10.0.0.0'' = None"
    by (simp_all add: R2_reports)
  have p0: "\<not> (case map_of (fib R2_reset) (dest_network (route_entry_for ''10.0.0.0'' 10)) of
               None \<Rightarrow> False | Some e \<Rightarrow> next_hop e = ''R1'')"
    by (simp add: td f0)
  have chain: "reported R2_report1 ''10.0.0.0'' ''R1'' = Some 10 \<and>
               reported R2_report2 ''10.0.0.0'' ''R1'' = Some 15 \<and>
               reported R2_report3 ''10.0.0.0'' ''R1'' = Some 22.5"
    using update_admission[OF k0 p0, where now=31 and ?t2.0=32 and ?t3.0=33
        and ?e2.0="route_entry_for ''10.0.0.0'' 25" and ?e3.0="route_entry_for ''10.0.0.0'' 90"]
      n0 f1 f2
    by (simp add: td tv R2_report1_def[symmetric] R2_report2_def[symmetric]
        R2_report3_def[symmetric])
  have k: "map_of (neighbor_table R2_routes) ''R1'' \<noteq> None"
    and n: "map_option next_hop (map_of (fib R2_routes) ''10.0.0.0'') = Some ''R3''"
    and o: "reported R2_routes ''10.0.0.0'' ''R1'' = Some 10"
    by (simp_all add: R2_routes_fields via_def reported_def)
  have p: "\<not> (case map_of (fib R2_routes) (dest_network (route_entry_for ''10.0.0.0'' c)) of
               None \<Rightarrow> False | Some e \<Rightarrow> next_hop e = ''R1'')" for c
    by (simp add: td R2_routes_fields via_def)
  have 1: "reported (handle_update R2_routes 30 ''R1'' [route_entry_for ''10.0.0.0'' 25]) ''10.0.0.0'' ''R1''
     = Some 15"
    using update_admission[OF k p[of 25], where now=30] o by (simp add: td tv)
  have 2: "handle_update R2_routes 30 ''R1'' [route_entry_for ''10.0.0.0'' 101] = R2_routes"
    using update_admission[OF k p[of 101], where now=30] by (simp add: td tv)
  have 3: "reported (handle_update R2_routes 30 ''R1'' [route_entry_for ''10.0.0.0'' 18]) ''10.0.0.0'' ''R1''
     = Some 18"
    using update_admission[OF k p[of 18], where now=30] o by (simp add: td tv)
  show ?thesis using k0 n0 f0 f1 f2 chain k n o 1 2 3 by simp
qed

text \<open>
  \<^bold>\<open>C4\<close> (cost stabilization), as claimed: with at least 3 recorded samples the exponential
  moving average weights the newest sample most. \<^verbatim>\<open>stabilize_cost\<close> starts from the newest
  sample and folds towards the oldest, so the oldest sample has the weight 1/2: with the
  history 10, 20 and the new cost 22 it returns 15.5, where the average that weights the
  newest most gives 18.5; and raising the oldest of three samples by 4 raises the result
  by 2, while raising the newest by 4 raises it by 1.
\<close>

theorem stabilize_cost_counterexample:
  "cost_history R2_routes (cost_key ''10.0.0.0'' ''R1'') = Some [10, 20] \<and>
   snd (stabilize_cost R2_routes ''10.0.0.0'' ''R1'' 22) = 15.5 \<and>
   spec_stabilized_value (push_cost [10, 20] 22) 22 = 18.5 \<and>
   stabilized_value [34, 30, 30] 30 - stabilized_value [30, 30, 30] 30 = 2 \<and>
   stabilized_value [30, 30, 34] 34 - stabilized_value [30, 30, 30] 30 = 1"
proof -
  have h: "cost_history R2_routes (cost_key ''10.0.0.0'' ''R1'') = Some [10, 20]"
    by (simp add: R2_routes_fields)
  have a: "snd (stabilize_cost R2_routes ''10.0.0.0'' ''R1'' 22) = 15.5"
    by (simp add: stabilize_cost_def h Let_def push_cost_def stabilized_value_def smooth_history_def)
  have b: "spec_stabilized_value (push_cost [10, 20] 22) 22 = 18.5"
    by (simp add: spec_stabilized_value_def push_cost_def)
  have c: "stabilized_value [34, 30, 30] 30 = 32" "stabilized_value [30, 30, 30] 30 = 30"
    "stabilized_value [30, 30, 34] 34 = 31"
    by (simp_all add: stabilized_value_def smooth_history_def)
  show ?thesis using h a b c by simp
qed

text \<open>
  \<^bold>\<open>C4\<close>, amended. The new cost is appended to the history first and the history is cut to
  its last five entries. When fewer than 3 samples are then recorded (fewer than 2 before
  the call) the result is \<open>min(c, 60)\<close>. Otherwise the result is the weighted average in
  which the oldest sample has the weight 1/2, each later sample half the weight of the one
  before it and the newest the same weight as the one before it, capped at 1.20 times the
  previously recorded sample and at 80.
\<close>

theorem stabilize_cost_weights:
  fixes a b d e f c :: rat
  assumes "old = (case cost_history r (cost_key P S) of None \<Rightarrow> [] | Some h \<Rightarrow> h)"
  shows "cost_history (fst (stabilize_cost r P S c)) (cost_key P S) = Some (push_cost old c) \<and>
         (length old < 2 \<longrightarrow> snd (stabilize_cost r P S c) = min c 60) \<and>
         (old = [a, b] \<longrightarrow>
            snd (stabilize_cost r P S c) = min (min (a / 2 + b / 4 + c / 4) (b * 1.2)) 80) \<and>
         (old = [a, b, d] \<longrightarrow>
            snd (stabilize_cost r P S c) =
              min (min (a / 2 + b / 4 + d / 8 + c / 8) (d * 1.2)) 80) \<and>
         (old = [a, b, d, e] \<longrightarrow>
            snd (stabilize_cost r P S c) =
              min (min (a / 2 + b / 4 + d / 8 + e / 16 + c / 16) (e * 1.2)) 80) \<and>
         (old = [a, b, d, e, f] \<longrightarrow>
            snd (stabilize_cost r P S c) =
              min (min (b / 2 + d / 4 + e / 8 + f / 16 + c / 16) (f * 1.2)) 80)"
proof -
  have s: "snd (stabilize_cost r P S c) = stabilized_value (push_cost old c) c"
    and h: "cost_history (fst (stabilize_cost r P S c)) (cost_key P S) = Some (push_cost old c)"
    using assms by (simp_all add: stabilize_cost_def Let_def)
  have short: "length old < 2 \<Longrightarrow> stabilized_value (push_cost old c) c = min c 60"
    by (simp add: push_cost_def Let_def stabilized_value_def)
  have cap: "(if m < x then m else x) = min x m" for x m :: rat by (simp add: min_def)
  have s2: "smooth_history (1 / 2) [a, b, c] = a / 2 + b / 4 + c / 4"
    and s3: "smooth_history (1 / 2) [a, b, d, c] = a / 2 + b / 4 + d / 8 + c / 8"
    and s4: "smooth_history (1 / 2) [a, b, d, e, c] = a / 2 + b / 4 + d / 8 + e / 16 + c / 16"
    and s5: "smooth_history (1 / 2) [b, d, e, f, c] = b / 2 + d / 4 + e / 8 + f / 16 + c / 16"
    by (simp_all add: smooth_history_def field_simps)
  have c2: "stabilized_value (push_cost [a, b] c) c = min (min (a / 2 + b / 4 + c / 4) (b * 1.2)) 80"
    by (simp add: push_cost_def stabilized_value_def Let_def s2 cap)
  have c3: "stabilized_value (push_cost [a, b, d] c) c =
              min (min (a / 2 + b / 4 + d / 8 + c / 8) (d * 1.2)) 80"
    by (simp add: push_cost_def stabilized_value_def Let_def s3 cap)
  have c4: "stabilized_value (push_cost [a, b, d, e] c) c =
              min (min (a / 2 + b / 4 + d / 8 + e / 16 + c / 16) (e * 1.2)) 80"
    by (simp add: push_cost_def stabilized_value_def Let_def s4 cap)
  have c5: "stabilized_value (push_cost [a, b, d, e, f] c) c =
              min (min (b / 2 + d / 4 + e / 8 + f / 16 + c / 16) (f * 1.2)) 80"
    by (simp add: push_cost_def stabilized_value_def Let_def s5 cap)
  show ?thesis
  proof (intro conjI impI)
    show "cost_history (fst (stabilize_cost r P S c)) (cost_key P S) = Some (push_cost old c)"
      by (rule h)
    show "snd (stabilize_cost r P S c) = min c 60" if "length old < 2"
      using short[OF that] by (simp only: s)
    show "snd (stabilize_cost r P S c) = min (min (a / 2 + b / 4 + c / 4) (b * 1.2)) 80"
      if "old = [a, b]" using c2 by (simp only: s that)
    show "snd (stabilize_cost r P S c) = min (min (a / 2 + b / 4 + d / 8 + c / 8) (d * 1.2)) 80"
      if "old = [a, b, d]" using c3 by (simp only: s that)
    show "snd (stabilize_cost r P S c) =
            min (min (a / 2 + b / 4 + d / 8 + e / 16 + c / 16) (e * 1.2)) 80"
      if "old = [a, b, d, e]" using c4 by (simp only: s that)
    show "snd (stabilize_cost r P S c) =
            min (min (b / 2 + d / 4 + e / 8 + f / 16 + c / 16) (f * 1.2)) 80"
      if "old = [a, b, d, e, f]" using c5 by (simp only: s that)
  qed
qed

theorem stabilize_cost_weights_witness:
  "snd (stabilize_cost R2_routes ''10.0.0.0'' ''R1'' 22) = min (min (10 / 2 + 20 / 4 + 22 / 4) (20 * 1.2)) 80 \<and>
   snd (stabilize_cost R2_routes ''10.0.0.0'' ''R3'' 22) = min 22 60 \<and>
   cost_history (fst (stabilize_cost R2_routes ''10.0.0.0'' ''R1'' 22)) (cost_key ''10.0.0.0'' ''R1'')
     = Some [10, 20, 22]"
  using stabilize_cost_weights[of "[10, 20]" R2_routes "''10.0.0.0''" "''R1''" 22 10 20]
    stabilize_cost_weights[of "[]" R2_routes "''10.0.0.0''" "''R3''" 22]
  by (simp add: R2_routes_fields cost_key_def push_cost_def)

text \<open>
  \<^bold>\<open>C5\<close> (loop detection). The claim: a candidate is rejected exactly when, after its cost
  is recorded, the last 5 recorded costs differ by more than 30, or 3 or more of the last 4
  recorded costs strictly increased. The oscillation test of \<^verbatim>\<open>detect_cost_loop\<close> reads
  \<^verbatim>\<open>history[-5:]\<close>, but the accumulation test counts the increases over the whole history
  of up to ten entries. On R2 the costs through R1 have alternated between 19.9 and 20.9
  six times; the seventh cost 19.9 is rejected by the code as an accumulation, although the
  last five costs differ by 1 and only one of the last four costs increased.
\<close>

theorem accumulation_counts_whole_history:
  "loop_detection R2_routes (cost_key ''10.0.0.0'' ''R1'') =
     Some [(0, 19.9), (5, 20.9), (10, 19.9), (15, 20.9), (20, 19.9), (25, 20.9)] \<and>
   snd (detect_cost_loop R2_routes 30 ''10.0.0.0'' ''R1'' 19.9) \<and>
   snd (candidate_for 30 ''10.0.0.0'' ''R1'' 10 R2_routes) = None \<and>
   \<not> spec_loop_verdict
       (push_sample [(0, 19.9), (5, 20.9), (10, 19.9), (15, 20.9), (20, 19.9), (25, 20.9)]
          (30, 19.9))"
proof -
  have l: "loop_detection R2_routes (cost_key ''10.0.0.0'' ''R1'') =
     Some [(0, 19.9), (5, 20.9), (10, 19.9), (15, 20.9), (20, 19.9), (25, 20.9)]"
    by (simp add: R2_routes_fields)
  have d: "snd (detect_cost_loop R2_routes 30 ''10.0.0.0'' ''R1'' 19.9)"
    by (simp add: detect_cost_loop_def l Let_def push_sample_def loop_verdict_def last_n_def)
  have n: "map_of (neighbor_table R2_routes) ''R1'' =
             Some \<lparr>last_seen = 3, metrics = hello_metrics hello10\<rparr>"
    by (simp add: R2_routes_fields)
  have c: "calculate_composite_cost R2_routes (hello_metrics hello10) + 10 = 19.9"
    by (simp add: hello10_cost R2_routes_fields)
  have k: "snd (candidate_for 30 ''10.0.0.0'' ''R1'' 10 R2_routes) = None"
    using d by (simp add: candidate_for_known[OF n] c)
  have s: "\<not> spec_loop_verdict
       (push_sample [(0, 19.9), (5, 20.9), (10, 19.9), (15, 20.9), (20, 19.9), (25, 20.9)]
          (30, 19.9))"
    by (simp add: spec_loop_verdict_def push_sample_def last_n_def)
  show ?thesis using l d k s by simp
qed

text \<open>
  \<^bold>\<open>C6\<close> (cost bound). \<^const>\<open>fib_cost_bound\<close> says that every FIB entry whose next hop is not
  \<^verbatim>\<open>'self'\<close> has a cost in \<open>(0, 80]\<close>. It is part of \<^const>\<open>router_inv\<close>, together with what
  the lower bound rests on: a positive composite link cost for every neighbor, non-negative
  reported costs (the field of the packet is unsigned) and positive recorded cost samples.
  \<^const>\<open>router_inv\<close> holds for a new router and is preserved by path selection with its
  ceiling, damping and stabilization, by UPDATE admission, by the decay sweep, the reset
  sweep, advertisement and pruning, and by the two sources of link metrics, the HELLOs
  built by \<^verbatim>\<open>send_hellos\<close> and the metric mutator, whose clamps keep the delay
  positive and the other metrics non-negative.
\<close>

theorem fib_cost_bound_preserved:
  assumes "router_inv r"
  shows "fib_cost_bound r \<and>
         router_inv (recalculate_dual r now dest) \<and>
         ((\<forall>route \<in> set routes. 0 \<le> total_delay route) \<longrightarrow>
            router_inv (handle_update r now nb routes)) \<and>
         (0 < calculate_composite_cost r (hello_metrics h) \<longrightarrow>
            router_inv (handle_hello r now nb h)) \<and>
         (metric_weights r = default_metric_weights \<longrightarrow>
            router_inv (handle_hello r now nb (sent_hello d j l c s)) \<and>
            router_inv (update_dynamic_metrics r drawn)) \<and>
         router_inv (apply_cost_decay r) \<and>
         router_inv (monitor_and_reset_costs r) \<and>
         router_inv (trigger_update r dest_opt) \<and>
         router_inv (prune_neighbors r now) \<and>
         router_inv (Router_init nm ifaces nets)"
proof -
  have sh: "router_inv (handle_hello r now nb (sent_hello d j l c s))"
    if "metric_weights r = default_metric_weights"
    using router_inv_handle_hello[OF assms sent_hello_cost[OF that]] .
  show ?thesis
    using assms router_inv_recalculate_dual[OF assms] router_inv_handle_update[OF assms]
      router_inv_handle_hello[OF assms] router_inv_apply_cost_decay[OF assms]
      router_inv_monitor[OF assms] router_inv_trigger_update[OF assms]
      router_inv_prune[OF assms] router_inv_init sh
      router_inv_update_dynamic_metrics[OF assms]
    by (simp add: router_inv_def)
qed

theorem fib_cost_bound_preserved_witness:
  "router_inv R2_routes \<and> fib_cost_bound R2_routes \<and>
   router_inv (recalculate_dual R2_routes 30 ''10.0.0.0'') \<and>
   router_inv (handle_update R2_routes 30 ''R1'' [route_entry_for ''10.0.0.0'' 25]) \<and>
   router_inv (handle_hello R2_routes 30 ''R1'' hello10) \<and>
   router_inv (handle_hello R2_routes 30 ''R1'' (sent_hello 40 7 1.5 20 90)) \<and>
   router_inv (update_dynamic_metrics R2_routes
     (\<lambda>nb. \<lparr>time_factor = 1.2, random_factor = 0.9, congestion_factor = 1, spike_factor = 1\<rparr>)) \<and>
   router_inv (apply_cost_decay R2_routes) \<and>
   router_inv (monitor_and_reset_costs R2_routes) \<and>
   fib_cost_bound (handle_update R2_routes 30 ''R1'' [route_entry_for ''10.0.0.0'' 25])"
proof -
  have mp: "metrics_positive R2_routes"
    by (simp add: metrics_positive_def R2_routes_fields hello10_cost)
  have rn: "reported_nonneg R2_routes"
    by (simp add: reported_nonneg_def R2_routes_fields)
  have hp: "history_positive R2_routes"
    by (simp add: history_positive_def R2_routes_fields)
  have fb: "fib_cost_bound R2_routes"
    by (simp add: fib_cost_bound_def R2_routes_fields via_def self_entry_def)
  have i: "router_inv R2_routes" using mp rn hp fb by (simp add: router_inv_def)
  have r: "\<forall>route \<in> set [route_entry_for ''10.0.0.0'' 25]. 0 \<le> total_delay route"
    by (simp add: route_entry_for_def py_int_def)
  have h: "0 < calculate_composite_cost R2_routes (hello_metrics hello10)"
    by (simp add: R2_routes_fields hello10_cost)
  have w: "metric_weights R2_routes = default_metric_weights" by (simp add: R2_routes_fields)
  note th = fib_cost_bound_preserved[OF i, where now=30 and dest="''10.0.0.0''"
      and routes="[route_entry_for ''10.0.0.0'' 25]" and nb="''R1''" and h=hello10
      and d=40 and j=7 and l="1.5" and c=20 and s=90
      and drawn="\<lambda>nb. \<lparr>time_factor = 1.2, random_factor = 0.9, congestion_factor = 1,
                         spike_factor = 1\<rparr>"]
  have u: "router_inv (handle_update R2_routes 30 ''R1'' [route_entry_for ''10.0.0.0'' 25])"
    using th r by blast
  have "fib_cost_bound (handle_update R2_routes 30 ''R1'' [route_entry_for ''10.0.0.0'' 25])"
    using fib_cost_bound_preserved[OF u] by blast
  then show ?thesis using i th r h w by blast
qed

text \<open>
  \<^bold>\<open>C7\<close> (advertisement and suppression). For a prefix \<open>P\<close> with a FIB entry,
  \<^verbatim>\<open>send_update(P)\<close> puts no packet on any link when the FIB cost of \<open>P\<close> exceeds 70; when
  the cost is at most 70 it puts, on every interface that has a link and in the order of
  the interfaces, one UPDATE whose only route entry is for \<open>P\<close>.
\<close>

theorem send_update_suppression:
  assumes "map_of (fib r) P = Some e"
  shows "(total_cost e > 70 \<longrightarrow> send_update r P = []) \<and>
         (total_cost e \<le> 70 \<longrightarrow>
            send_update r P =
              [(i, l, Update [route_entry_for P (total_cost e)]). (i, Some l) \<leftarrow> interfaces r] \<and>
            dest_network (route_entry_for P (total_cost e)) = P)"
  using assms by (simp add: send_update_def send_all_eq) (simp add: route_entry_for_def)

theorem send_update_suppression_witness:
  "map_of (fib R2_routes) ''10.0.1.0'' = Some (via ''R1'' 71) \<and>
   send_update R2_routes ''10.0.1.0'' = [] \<and>
   map_of (fib R2_routes) ''10.0.0.0'' = Some (via ''R3'' 40) \<and>
   send_update R2_routes ''10.0.0.0'' =
     [(''eth0'', link12, Update [route_entry_for ''10.0.0.0'' 40]),
      (''eth1'', link23, Update [route_entry_for ''10.0.0.0'' 40])]"
proof -
  have a: "map_of (fib R2_routes) ''10.0.1.0'' = Some (via ''R1'' 71)"
    and b: "map_of (fib R2_routes) ''10.0.0.0'' = Some (via ''R3'' 40)"
    by (simp_all add: R2_routes_fields)
  show ?thesis
    using send_update_suppression[OF a] send_update_suppression[OF b] a b
    by (simp add: via_def R2_routes_fields)
qed

text \<open>
  \<^bold>\<open>C8\<close> (decay sweep). One pass of \<^verbatim>\<open>apply_cost_decay\<close> multiplies by 0.95 the cost of
  every FIB entry whose next hop is not \<^verbatim>\<open>'self'\<close> and whose cost exceeds 10, and leaves the
  other entries as they are; for the prefix of such an entry every value above 10 in the
  topology table is multiplied by 0.95 as well, and the topology table of other prefixes
  is unchanged. A learned route of cost 40 has the cost 38 afterwards.
\<close>

theorem cost_decay_sweep:
  assumes "distinct (map fst (fib r))"
  shows "fib (apply_cost_decay r) =
           map (\<lambda>(dest, e). (dest, if next_hop e \<noteq> ''self'' \<and> total_cost e > 10
                                    then e\<lparr>total_cost := total_cost e * 0.95\<rparr> else e)) (fib r) \<and>
         (\<forall>dest e. map_of (fib r) dest = Some e \<longrightarrow>
            map_of (topology_table (apply_cost_decay r)) dest =
              (if next_hop e \<noteq> ''self'' \<and> total_cost e > 10
               then map_option (map (\<lambda>(nb, v). (nb, if v > 10 then v * 0.95 else v)))
                      (map_of (topology_table r) dest)
               else map_of (topology_table r) dest)) \<and>
         (\<forall>dest e. map_of (fib r) dest = Some e \<and> next_hop e \<noteq> ''self'' \<and> total_cost e = 40 \<longrightarrow>
            map_option total_cost (map_of (fib (apply_cost_decay r)) dest) = Some 38.0)"
proof -
  have f: "fib (apply_cost_decay r) = map (\<lambda>(dest, e). (dest, decay_entry e)) (fib r)"
    and t: "topology_table (apply_cost_decay r) = decay_topology (fib r) (topology_table r)"
    by (simp_all add: apply_cost_decay_def Let_def)
  have f1: "fib (apply_cost_decay r) =
           map (\<lambda>(dest, e). (dest, if next_hop e \<noteq> ''self'' \<and> total_cost e > 10
                                    then e\<lparr>total_cost := total_cost e * 0.95\<rparr> else e)) (fib r)"
    unfolding f by (simp add: decay_entry_def decays_def)
  have lk: "map_of (fib (apply_cost_decay r)) dest = map_option decay_entry (map_of (fib r) dest)" for dest
    unfolding f by (simp add: map_of_map)
  have t1: "map_of (topology_table (apply_cost_decay r)) dest =
              (if next_hop e \<noteq> ''self'' \<and> total_cost e > 10
               then map_option (map (\<lambda>(nb, v). (nb, if v > 10 then v * 0.95 else v)))
                      (map_of (topology_table r) dest)
               else map_of (topology_table r) dest)"
    if m: "map_of (fib r) dest = Some e" for dest e
  proof -
    have de: "(dest, e) \<in> set (fib r)" using m by (rule map_of_SomeD)
    have "(\<exists>e'. (dest, e') \<in> set (fib r) \<and> decays e') = decays e"
    proof
      assume "\<exists>e'. (dest, e') \<in> set (fib r) \<and> decays e'"
      then obtain e' where e': "(dest, e') \<in> set (fib r)" "decays e'" by blast
      have "e' = e" using assms de e'(1) by (meson eq_key_imp_eq_value)
      then show "decays e" using e'(2) by simp
    next
      assume "decays e"
      then show "\<exists>e'. (dest, e') \<in> set (fib r) \<and> decays e'" using de by blast
    qed
    moreover have "decay_reported = map (\<lambda>(nb, v). (nb, if v > 10 then v * 0.95 else v))"
      by (rule ext) (simp add: decay_reported_def)
    ultimately show ?thesis
      unfolding t decay_topology_lookup[OF assms]
      by (simp add: decays_def)
  qed
  have e40: "map_option total_cost (map_of (fib (apply_cost_decay r)) dest) = Some 38.0"
    if "map_of (fib r) dest = Some e" "next_hop e \<noteq> ''self''" "total_cost e = 40" for dest e
    using that by (simp add: lk decay_entry_def decays_def)
  show ?thesis using f1 t1 e40 by blast
qed

theorem cost_decay_sweep_witness:
  "distinct (map fst (fib R2_routes)) \<and>
   fib (apply_cost_decay R2_routes) =
     [(''192.168.2.0'', self_entry), (''10.0.0.0'', via ''R3'' 38), (''10.0.1.0'', via ''R1'' 67.45),
      (''10.0.2.0'', via ''R9'' 19)] \<and>
   map_of (topology_table (apply_cost_decay R2_routes)) ''10.0.0.0'' =
     Some [(''R3'', 28.5), (''R1'', 10)] \<and>
   map_option total_cost (map_of (fib (apply_cost_decay R2_routes)) ''10.0.0.0'') = Some 38.0"
proof -
  have d: "distinct (map fst (fib R2_routes))" by (simp add: R2_routes_fields)
  have m: "map_of (fib R2_routes) ''10.0.0.0'' = Some (via ''R3'' 40)"
    by (simp add: R2_routes_fields)
  note th = cost_decay_sweep[OF d]
  have a: "fib (apply_cost_decay R2_routes) =
     [(''192.168.2.0'', self_entry), (''10.0.0.0'', via ''R3'' 38), (''10.0.1.0'', via ''R1'' 67.45),
      (''10.0.2.0'', via ''R9'' 19)]"
    using th by (simp add: R2_routes_fields via_def self_entry_def)
  have th2: "map_of (topology_table (apply_cost_decay R2_routes)) dest =
              (if next_hop e \<noteq> ''self'' \<and> total_cost e > 10
               then map_option (map (\<lambda>(nb, v). (nb, if v > 10 then v * 0.95 else v)))
                      (map_of (topology_table R2_routes) dest)
               else map_of (topology_table R2_routes) dest)"
    if "map_of (fib R2_routes) dest = Some e" for dest e using th that by blast
  have th3: "map_option total_cost (map_of (fib (apply_cost_decay R2_routes)) dest) = Some 38.0"
    if "map_of (fib R2_routes) dest = Some e" "next_hop e \<noteq> ''self''" "total_cost e = 40"
    for dest e using th that by blast
  have b: "map_of (topology_table (apply_cost_decay R2_routes)) ''10.0.0.0'' =
     Some [(''R3'', 28.5), (''R1'', 10)]"
    using th2[OF m] by (simp add: R2_routes_fields via_def)
  have c: "map_option total_cost (map_of (fib (apply_cost_decay R2_routes)) ''10.0.0.0'') = Some 38.0"
    using th3[OF m] by (simp add: via_def)
  show ?thesis using d a b c by simp
qed

text \<open>
  \<^bold>\<open>C9\<close> (no candidate, no change). When \<^verbatim>\<open>advanced_path_selection\<close> returns no candidate
  for \<open>P\<close> (in particular when no known neighbor has an entry in \<open>topology_table[P]\<close>),
  \<^verbatim>\<open>recalculate_dual(P)\<close> leaves the FIB, the topology table and the route-change log
  unchanged. No recomputation, packet, decay sweep, advertisement or pruning removes a
  prefix from the FIB; the reset sweep keeps every entry that is directly connected or
  whose cost is at most 60, so it removes only learned entries of cost above 60.
\<close>

theorem recalculate_dual_no_candidate:
  "(snd (advanced_path_selection r now P) = None \<longrightarrow>
      fib (recalculate_dual r now P) = fib r \<and>
      topology_table (recalculate_dual r now P) = topology_table r \<and>
      route_changes (recalculate_dual r now P) = route_changes r) \<and>
   ((\<forall>(nb, c) \<in> set (case map_of (topology_table r) P of None \<Rightarrow> [] | Some m \<Rightarrow> m).
        map_of (neighbor_table r) nb = None) \<longrightarrow>
      snd (advanced_path_selection r now P) = None) \<and>
   fst ` set (fib r) \<subseteq> fst ` set (fib (recalculate_dual r now P)) \<and>
   fst ` set (fib r) \<subseteq> fst ` set (fib (handle_packet r now S pkt)) \<and>
   fst ` set (fib r) \<subseteq> fst ` set (fib (apply_cost_decay r)) \<and>
   fst ` set (fib r) \<subseteq> fst ` set (fib (trigger_update r d)) \<and>
   fst ` set (fib r) \<subseteq> fst ` set (fib (prune_neighbors r now)) \<and>
   (\<forall>Q e. distinct (map fst (fib r)) \<and> map_of (fib r) Q = Some e \<and>
      \<not> (next_hop e \<noteq> ''self'' \<and> total_cost e > 60) \<longrightarrow>
      Q \<in> fst ` set (fib (monitor_and_reset_costs r)))"
proof -
  have a: "fib (recalculate_dual r now P) = fib r \<and>
      topology_table (recalculate_dual r now P) = topology_table r \<and>
      route_changes (recalculate_dual r now P) = route_changes r"
    if "snd (advanced_path_selection r now P) = None"
    using dual_no_candidate[OF that] by (simp add: same_tables_def)
  have b: "snd (advanced_path_selection r now P) = None"
    if "\<forall>(nb, c) \<in> set (case map_of (topology_table r) P of None \<Rightarrow> [] | Some m \<Rightarrow> m).
        map_of (neighbor_table r) nb = None"
    using selection_unknown[OF that] by simp
  have c: "fst ` set (fib r) \<subseteq> fst ` set (fib (apply_cost_decay r))"
    using apply_cost_decay_keys[of r] by (metis set_map subset_refl)
  have p: "fst ` set (fib r) \<subseteq> fst ` set (fib (prune_neighbors r now))"
    by (simp add: prune_neighbors_def)
  have m: "Q \<in> fst ` set (fib (monitor_and_reset_costs r))"
    if "distinct (map fst (fib r))" "map_of (fib r) Q = Some e"
       "\<not> (next_hop e \<noteq> ''self'' \<and> total_cost e > 60)" for Q e
    using monitor_keeps[OF that(1,2)] that(3) by (simp add: resets_def)
  show ?thesis
    using a b c p m recalculate_dual_keys[of r now P] handle_packet_keys[of r now S pkt]
      trigger_update_keys[of r d]
    by blast
qed

theorem recalculate_dual_no_candidate_witness:
  "snd (advanced_path_selection R2_routes 30 ''10.0.2.0'') = None \<and>
   fib (recalculate_dual R2_routes 30 ''10.0.2.0'') = fib R2_routes \<and>
   topology_table (recalculate_dual R2_routes 30 ''10.0.2.0'') = topology_table R2_routes \<and>
   route_changes (recalculate_dual R2_routes 30 ''10.0.2.0'') = route_changes R2_routes \<and>
   map_of (fib (recalculate_dual R2_routes 30 ''10.0.2.0'')) ''10.0.2.0'' = Some (via ''R9'' 20) \<and>
   ''10.0.2.0'' \<in> fst ` set (fib (monitor_and_reset_costs R2_routes))"
proof -
  have u: "\<forall>(nb, c) \<in> set (case map_of (topology_table R2_routes) ''10.0.2.0'' of
                              None \<Rightarrow> [] | Some m \<Rightarrow> m).
             map_of (neighbor_table R2_routes) nb = None"
    by (simp add: R2_routes_fields)
  have d: "distinct (map fst (fib R2_routes))"
    and m: "map_of (fib R2_routes) ''10.0.2.0'' = Some (via ''R9'' 20)"
    and n: "\<not> (next_hop (via ''R9'' 20) \<noteq> ''self'' \<and> total_cost (via ''R9'' 20) > 60)"
    by (simp_all add: R2_routes_fields via_def)
  note th = recalculate_dual_no_candidate[of R2_routes 30 "''10.0.2.0''"]
  have s: "snd (advanced_path_selection R2_routes 30 ''10.0.2.0'') = None" using th u by blast
  have f: "fib (recalculate_dual R2_routes 30 ''10.0.2.0'') = fib R2_routes \<and>
   topology_table (recalculate_dual R2_routes 30 ''10.0.2.0'') = topology_table R2_routes \<and>
   route_changes (recalculate_dual R2_routes 30 ''10.0.2.0'') = route_changes R2_routes"
    using th s by blast
  have k: "''10.0.2.0'' \<in> fst ` set (fib (monitor_and_reset_costs R2_routes))"
    using th d m n by blast
  show ?thesis using s f k m by simp
qed



end
